theory Spec2Isabelle
  imports Main
begin

section \<open>Text\<close>

text \<open>
  A Python \<open>str\<close> is modelled as a \<open>string\<close>: a list of characters, each standing for
  the code point of the same number, so the model covers texts whose code points are
  below 256. The bytes of a file are a \<open>string\<close> too, one character per byte.
  The character classes below are those of CPython for these code points.
\<close>

definition LF :: char where "LF = CHR 0x0A"
definition CR :: char where "CR = CHR 0x0D"
definition NUL :: char where "NUL = CHR 0x00"

definition lower_code :: "nat \<Rightarrow> nat" where
  \<comment> \<open>\<open>str.lower\<close> on one code point: A-Z and the capital letters of Latin-1.\<close>
  "lower_code n =
     (if (65 \<le> n \<and> n \<le> 90) \<or> (192 \<le> n \<and> n \<le> 222 \<and> n \<noteq> 215) then n + 32 else n)"

definition ch_eq :: "bool \<Rightarrow> char \<Rightarrow> char \<Rightarrow> bool" where
  \<comment> \<open>A literal character of a pattern against a character of the text; under
      \<open>re.IGNORECASE\<close> both are lowered first.\<close>
  "ch_eq ignorecase a b =
     (if ignorecase then lower_code (of_char a) = lower_code (of_char b) else a = b)"

definition is_word :: "char \<Rightarrow> bool" where
  \<comment> \<open>\<open>\w\<close> of a str pattern: \<open>isalnum()\<close> or the underscore.\<close>
  "is_word c =
     (let n = (of_char c :: nat) in
        (48 \<le> n \<and> n \<le> 57) \<or> (65 \<le> n \<and> n \<le> 90) \<or> (97 \<le> n \<and> n \<le> 122) \<or> n = 95 \<or>
        n = 170 \<or> n = 178 \<or> n = 179 \<or> n = 181 \<or> n = 185 \<or> n = 186 \<or>
        (188 \<le> n \<and> n \<le> 190) \<or> (192 \<le> n \<and> n \<le> 214) \<or> (216 \<le> n \<and> n \<le> 246) \<or>
        (248 \<le> n \<and> n \<le> 255))"

definition is_space :: "char \<Rightarrow> bool" where
  \<comment> \<open>\<open>str.isspace\<close>: what \<open>str.strip()\<close> removes.\<close>
  "is_space c =
     (let n = (of_char c :: nat) in
        (9 \<le> n \<and> n \<le> 13) \<or> (28 \<le> n \<and> n \<le> 32) \<or> n = 133 \<or> n = 160)"

definition is_linebreak :: "char \<Rightarrow> bool" where
  \<comment> \<open>The line boundaries of \<open>str.splitlines\<close>.\<close>
  "is_linebreak c =
     (let n = (of_char c :: nat) in
        (10 \<le> n \<and> n \<le> 13) \<or> (28 \<le> n \<and> n \<le> 30) \<or> n = 133)"

definition startswith :: "string \<Rightarrow> string \<Rightarrow> bool" where
  "startswith s p = (take (length p) s = p)"

definition endswith :: "string \<Rightarrow> string \<Rightarrow> bool" where
  "endswith s p = (length p \<le> length s \<and> drop (length s - length p) s = p)"

definition strip :: "string \<Rightarrow> string" where
  "strip s = rev (dropWhile is_space (rev (dropWhile is_space s)))"

function str_replace :: "string \<Rightarrow> string \<Rightarrow> string \<Rightarrow> string" where
  \<comment> \<open>\<open>s.replace(old, new)\<close>: every occurrence, left to right, without overlap;
      an empty \<open>old\<close> matches before every character and at the end.\<close>
  "str_replace old new [] = (if old = [] then new else [])"
| "str_replace old new (c # cs) =
     (if old = [] then new @ c # str_replace old new cs
      else if startswith (c # cs) old
        then new @ str_replace old new (drop (length old) (c # cs))
      else c # str_replace old new cs)"
  by pat_completeness auto
termination
  by (relation "measure (\<lambda>(old, new, s). length s)") (auto simp: neq_Nil_conv)

fun universal_newlines :: "bool \<Rightarrow> string \<Rightarrow> string" where
  \<comment> \<open>Reading in text mode with the default \<open>newline=None\<close>: \<open>\r\n\<close> and a lone
      \<open>\r\<close> become \<open>\n\<close>. The flag says that the character before was a \<open>\r\<close>.\<close>
  "universal_newlines after_cr [] = []"
| "universal_newlines after_cr (c # cs) =
     (if c = CR then LF # universal_newlines True cs
      else if c = LF \<and> after_cr then universal_newlines False cs
      else c # universal_newlines False cs)"

fun keep_lines :: "string \<Rightarrow> string \<Rightarrow> string list" where
  \<comment> \<open>The lines of a text, each with its \<open>\n\<close>; the first argument is the line
      being read.\<close>
  "keep_lines cur [] = (if cur = [] then [] else [cur])"
| "keep_lines cur (c # cs) =
     (if c = LF then (cur @ [c]) # keep_lines [] cs else keep_lines (cur @ [c]) cs)"

definition readlines :: "string \<Rightarrow> string list" where
  \<comment> \<open>\<open>f.readlines()\<close> of a file opened in text mode, from its decoded content.\<close>
  "readlines content = keep_lines [] (universal_newlines False content)"

fun split_lines :: "bool \<Rightarrow> string \<Rightarrow> string \<Rightarrow> string list" where
  \<comment> \<open>\<open>str.splitlines(keepends)\<close>; \<open>\r\n\<close> is one boundary.\<close>
  "split_lines keepends cur [] = (if cur = [] then [] else [cur])"
| "split_lines keepends cur [c] =
     (if is_linebreak c then [cur @ (if keepends then [c] else [])] else [cur @ [c]])"
| "split_lines keepends cur (c # d # cs) =
     (if c = CR \<and> d = LF then (cur @ (if keepends then [c, d] else [])) # split_lines keepends [] cs
      else if is_linebreak c
        then (cur @ (if keepends then [c] else [])) # split_lines keepends [] (d # cs)
      else split_lines keepends (cur @ [c]) (d # cs))"

definition splitlines :: "bool \<Rightarrow> string \<Rightarrow> string list" where
  "splitlines keepends s = split_lines keepends [] s"

section \<open>Patterns\<close>

text \<open>
  \<open>re.compile(re.escape(p), flags)\<close> is a sequence of literal characters, and
  \<open>re.compile(rf"\b{re.escape(p)}\b", flags)\<close> the same between two word boundaries;
  their \<open>search\<close> is defined here. A pattern the user writes as a regular expression is
  compiled and searched by the library, which is a parameter of the model.
\<close>

datatype 'rx matcher =
    Literal bool string
  | WholeWord bool string
  | Regex 'rx

fun match_here :: "bool \<Rightarrow> string \<Rightarrow> string \<Rightarrow> bool" where
  \<comment> \<open>The literal characters match at the start of the text.\<close>
  "match_here ic [] s = True"
| "match_here ic (p # ps) [] = False"
| "match_here ic (p # ps) (c # cs) = (ch_eq ic p c \<and> match_here ic ps cs)"

fun literal_search :: "bool \<Rightarrow> string \<Rightarrow> string \<Rightarrow> bool" where
  "literal_search ic p [] = match_here ic p []"
| "literal_search ic p (c # cs) = (match_here ic p (c # cs) \<or> literal_search ic p cs)"

definition word_of :: "char option \<Rightarrow> bool" where
  "word_of c = (case c of None \<Rightarrow> False | Some x \<Rightarrow> is_word x)"

definition boundary :: "char option \<Rightarrow> char option \<Rightarrow> bool" where
  \<comment> \<open>\<open>\b\<close> between two neighbours (\<open>None\<close> at either end of the text).\<close>
  "boundary before after = (word_of before \<noteq> word_of after)"

definition first_of :: "string \<Rightarrow> char option" where
  "first_of s = (case s of [] \<Rightarrow> None | c # _ \<Rightarrow> Some c)"

definition last_of :: "char option \<Rightarrow> string \<Rightarrow> char option" where
  "last_of before s = (if s = [] then before else Some (last s))"

definition word_here :: "bool \<Rightarrow> string \<Rightarrow> char option \<Rightarrow> string \<Rightarrow> bool" where
  \<comment> \<open>\<open>\b\<close>, the literal characters, \<open>\b\<close> at the start of the text, whose left
      neighbour is \<open>before\<close>.\<close>
  "word_here ic p before s =
     (boundary before (first_of s) \<and> match_here ic p s \<and>
      boundary (last_of before (take (length p) s)) (first_of (drop (length p) s)))"

fun word_search :: "bool \<Rightarrow> string \<Rightarrow> char option \<Rightarrow> string \<Rightarrow> bool" where
  "word_search ic p before [] = word_here ic p before []"
| "word_search ic p before (c # cs) =
     (word_here ic p before (c # cs) \<or> word_search ic p (Some c) cs)"

fun regex_search :: "('rx \<Rightarrow> string \<Rightarrow> bool) \<Rightarrow> 'rx matcher \<Rightarrow> string \<Rightarrow> bool" where
  \<comment> \<open>\<open>bool(self.regex.search(line))\<close>\<close>
  "regex_search lib_search (Literal ic p) line = literal_search ic p line"
| "regex_search lib_search (WholeWord ic p) line = word_search ic p None line"
| "regex_search lib_search (Regex r) line = lib_search r line"

section \<open>Paths and files\<close>

text \<open>
  A path is the string \<open>str(path)\<close> of an absolute, normalised \<open>pathlib.Path\<close>, with
  \<open>/\<close> between its components.
\<close>

definition path_name :: "string \<Rightarrow> string" where
  \<comment> \<open>\<open>path.name\<close>: the last component.\<close>
  "path_name p = rev (takeWhile (\<lambda>c. c \<noteq> CHR ''/'') (rev p))"

definition path_suffix :: "string \<Rightarrow> string" where
  \<comment> \<open>\<open>path.suffix\<close>: from the last dot of the name, unless that dot is its first or
      its last character.\<close>
  "path_suffix p =
     (let n = path_name p; ext = rev (takeWhile (\<lambda>c. c \<noteq> CHR ''.'') (rev n))
      in if ext \<noteq> [] \<and> length ext + 1 < length n then CHR ''.'' # ext else [])"

definition path_join :: "string \<Rightarrow> string \<Rightarrow> string" where
  \<comment> \<open>\<open>Path(dirpath) / name\<close>, and \<open>os.path.join\<close> inside \<open>os.walk\<close>.\<close>
  "path_join d n = (if d \<noteq> [] \<and> last d = CHR ''/'' then d @ n else d @ ''/'' @ n)"

datatype exn =
    OSError string
  | ValueError string
  | KeyError string
  | ReError string

fun message_of :: "exn \<Rightarrow> string" where
  \<comment> \<open>\<open>str(e)\<close>\<close>
  "message_of (OSError m) = m"
| "message_of (ValueError m) = m"
| "message_of (KeyError m) = m"
| "message_of (ReError m) = m"

text \<open>
  A regular file is what the library calls of the program observe of it: its bytes,
  the text that decoding them as UTF-8 with \<open>errors="replace"\<close> gives (before the
  translation of newlines), whether it can be opened, and the members that \<open>zipfile\<close> and
  \<open>tarfile\<close> find in it (\<open>None\<close> when the file is no such archive; a member maps to
  \<open>None\<close> when it cannot be read, or, in a tar archive, is no regular file).
\<close>

record regular_file =
  raw :: string
  decoded :: string
  readable :: bool
  zip_members :: "(string \<times> string option) list option"
  tar_members :: "(string \<times> string option) list option"

type_synonym filemap = "string \<Rightarrow> regular_file option"

definition utf8_encode :: "string \<Rightarrow> string" where
  \<comment> \<open>The UTF-8 bytes of a text whose code points are below 256.\<close>
  "utf8_encode s =
     concat (map (\<lambda>c. let n = (of_char c :: nat) in
                        if n < 128 then [c]
                        else [char_of (192 + n div 64), char_of (128 + n mod 64)]) s)"

definition written_file :: "string \<Rightarrow> regular_file" where
  \<comment> \<open>The file that writing a text with \<open>encoding="utf-8"\<close> and closing leaves.\<close>
  "written_file content =
     \<lparr>raw = utf8_encode content, decoded = content, readable = True,
      zip_members = None, tar_members = None\<rparr>"

definition st_size :: "regular_file \<Rightarrow> nat" where
  "st_size f = length (raw f)"

definition open_zip :: "filemap \<Rightarrow> string \<Rightarrow> (string \<times> string option) list option" where
  \<comment> \<open>\<open>zipfile.ZipFile(path)\<close>; \<open>None\<close> when it raises.\<close>
  "open_zip fs p =
     (case fs p of None \<Rightarrow> None
      | Some f \<Rightarrow> if readable f then zip_members f else None)"

definition open_tar :: "filemap \<Rightarrow> string \<Rightarrow> (string \<times> string option) list option" where
  \<comment> \<open>\<open>tarfile.open(path)\<close>; \<open>None\<close> when it raises.\<close>
  "open_tar fs p =
     (case fs p of None \<Rightarrow> None
      | Some f \<Rightarrow> if readable f then tar_members f else None)"

definition find_member :: "(string \<times> string option) list \<Rightarrow> string \<Rightarrow> string option option" where
  \<comment> \<open>The member of that name (the last one, as the archive's name table keeps it);
      \<open>None\<close> when there is none and the library raises \<open>KeyError\<close>.\<close>
  "find_member ms n = map_of (rev ms) n"

section \<open>utils.py\<close>

definition is_binary_file :: "filemap \<Rightarrow> string \<Rightarrow> nat \<Rightarrow> bool" where
  "is_binary_file fs p block_size =
     (case fs p of
        None \<Rightarrow> True
      | Some f \<Rightarrow> if readable f then NUL \<in> set (take block_size (raw f)) else True)"

text \<open>
  \<open>atomic_write\<close> runs against an environment that names the temporary file
  \<open>tempfile\<close> picks and says which of its file operations fail, and with which error.
  It returns the file system it leaves and the exception it raises, if any.
\<close>

datatype fs_op = OpCreate | OpWrite | OpCopy | OpReplace | OpRemove

type_synonym faults = "fs_op \<Rightarrow> exn option"

definition backup_copy :: "faults \<Rightarrow> filemap \<Rightarrow> string \<Rightarrow> bool \<Rightarrow> filemap \<times> exn option" where
  \<comment> \<open>\<open>if make_backup and path.exists(): shutil.copy2(path, path.with_suffix(path.suffix + ".bak"))\<close>.
      \<open>with_suffix\<close> raises for a path with an empty name; the new name is the old one
      with \<open>.bak\<close> appended.\<close>
  "backup_copy flt fs p make_backup =
     (if make_backup \<and> fs p \<noteq> None then
        (if path_name p = [] then (fs, Some (ValueError ''empty name''))
         else case flt OpCopy of
           Some e \<Rightarrow> (fs, Some e)
         | None \<Rightarrow>
            (case fs p of
               None \<Rightarrow> (fs, Some (OSError ''No such file or directory''))
             | Some f \<Rightarrow>
                if readable f then (fs(p @ ''.bak'' \<mapsto> f), None)
                else (fs, Some (OSError ''Permission denied''))))
      else (fs, None))"

definition cleanup :: "faults \<Rightarrow> string \<Rightarrow> filemap \<Rightarrow> exn \<Rightarrow> filemap \<times> exn option" where
  \<comment> \<open>The handler: \<open>if os.path.exists(temp_name): os.remove(temp_name)\<close>, then \<open>raise e\<close>.\<close>
  "cleanup flt tmp fs e =
     (if fs tmp \<noteq> None then
        (case flt OpRemove of
           Some e' \<Rightarrow> (fs, Some e')
         | None \<Rightarrow> (fs(tmp := None), Some e))
      else (fs, Some e))"

definition atomic_write ::
  "faults \<Rightarrow> string \<Rightarrow> filemap \<Rightarrow> string \<Rightarrow> string \<Rightarrow> bool \<Rightarrow> filemap \<times> exn option" where
  \<comment> \<open>The \<open>with\<close> block creates the temporary file (\<open>delete=False\<close>), writes the
      content and closes it; a write that fails leaves the file, modelled as still empty.
      The \<open>try\<close> block holds the backup and \<open>os.replace\<close>.\<close>
  "atomic_write flt tmp fs p content make_backup =
     (case flt OpCreate of
        Some e \<Rightarrow> (fs, Some e)
      | None \<Rightarrow>
         let fs1 = fs(tmp \<mapsto> written_file []) in
         (case flt OpWrite of
            Some e \<Rightarrow> (fs1, Some e)
          | None \<Rightarrow>
             let fs2 = fs1(tmp \<mapsto> written_file content) in
             (case backup_copy flt fs2 p make_backup of
                (fs3, Some e) \<Rightarrow> cleanup flt tmp fs3 e
              | (fs3, None) \<Rightarrow>
                 (case flt OpReplace of
                    Some e \<Rightarrow> cleanup flt tmp fs3 e
                  | None \<Rightarrow> (fs3(p := fs3 tmp, tmp := None), None)))))"

definition read_file_lines :: "filemap \<Rightarrow> string \<Rightarrow> bool \<Rightarrow> string option \<Rightarrow> string list" where
  \<comment> \<open>Every exception is caught and gives \<open>[]\<close>.\<close>
  "read_file_lines fs p is_archive member =
     (if is_archive then
        (if path_suffix p = ''.zip'' then
           (case open_zip fs p of
              None \<Rightarrow> []
            | Some ms \<Rightarrow>
               (case member of
                  None \<Rightarrow> []
                | Some n \<Rightarrow>
                   (case find_member ms n of
                      Some (Some content) \<Rightarrow> splitlines True content
                    | _ \<Rightarrow> [])))
         else if endswith p ''tar.gz'' \<or> endswith p ''.tgz'' then
           (case open_tar fs p of
              None \<Rightarrow> []
            | Some ms \<Rightarrow>
               (case member of
                  None \<Rightarrow> []
                | Some n \<Rightarrow>
                   (case find_member ms n of
                      Some (Some content) \<Rightarrow> splitlines True content
                    | _ \<Rightarrow> [])))
         else [])
      else
        (case fs p of
           None \<Rightarrow> []
         | Some f \<Rightarrow> if readable f then readlines (decoded f) else []))"

section \<open>core.py\<close>

definition MAX_FILE_SIZE_MB :: nat where "MAX_FILE_SIZE_MB = 10"
definition DEFAULT_MAX_MATCHES :: int where "DEFAULT_MAX_MATCHES = 5000"

text \<open>
  The fields of \<open>Match\<close> carry the prefix \<open>m_\<close>. \<open>SearchStats.start_time\<close>, a clock
  reading that no branch of the engine tests, is left out.
\<close>

record match =
  m_path :: string
  m_line_no :: nat
  m_preview :: string
  m_is_archive :: bool
  m_member :: "string option"

record search_stats =
  scanned_files :: nat
  total_candidates :: nat
  matches_found :: nat

text \<open>
  The options dictionary is read with \<open>opts.get\<close>: a key that is absent reads as
  \<open>None\<close>, which is false where a flag is tested, so a flag is a \<open>bool\<close>; the two keys
  read with a default are optional.
\<close>

record options =
  opt_text :: "string option"
  opt_case :: bool
  opt_regex :: bool
  opt_whole_word :: bool
  opt_include_hidden :: bool
  opt_use_default_ignores :: bool
  opt_follow_symlinks :: bool
  opt_search_archives :: bool
  opt_max_matches :: "int option"

text \<open>
  The library the engine calls: \<open>re.compile\<close> of the user's pattern (the message of
  \<open>re.error\<close>, or the compiled pattern), \<open>search\<close> and \<open>sub\<close> of a compiled pattern
  (\<open>sub\<close> raises \<open>re.error\<close> for a bad replacement template), and \<open>fnmatch.fnmatch\<close>.
\<close>

record 'rx stdlib =
  re_compile :: "string \<Rightarrow> bool \<Rightarrow> string + 'rx"
  re_search :: "'rx \<Rightarrow> string \<Rightarrow> bool"
  re_sub :: "'rx matcher \<Rightarrow> string \<Rightarrow> string \<Rightarrow> string + string"
  fnmatch :: "string \<Rightarrow> string \<Rightarrow> bool"

record 'rx engine =
  root :: string
  opts :: options
  include_globs :: "string list"
  exclude_globs :: "string list"
  compiled :: "'rx matcher"

definition SearchEngine_init ::
  "'rx stdlib \<Rightarrow> string \<Rightarrow> options \<Rightarrow> string list \<Rightarrow> string list \<Rightarrow> exn + 'rx engine" where
  \<comment> \<open>\<open>SearchEngine.__init__\<close>: \<open>Inl\<close> is the exception it raises.\<close>
  "SearchEngine_init lib rt os inc exc =
     (let ignorecase = \<not> opt_case os;
          pattern = (case opt_text os of None \<Rightarrow> [] | Some t \<Rightarrow> t);
          mk = (\<lambda>rx. \<lparr>root = rt, opts = os, include_globs = inc, exclude_globs = exc,
                       compiled = rx\<rparr>)
      in if opt_regex os then
           (case re_compile lib pattern ignorecase of
              Inl msg \<Rightarrow> Inl (ValueError (''Invalid regex: '' @ msg))
            | Inr r \<Rightarrow> Inr (mk (Regex r)))
         else if opt_whole_word os then Inr (mk (WholeWord ignorecase pattern))
         else Inr (mk (Literal ignorecase pattern)))"

definition matches_globs :: "'rx stdlib \<Rightarrow> 'rx engine \<Rightarrow> string \<Rightarrow> bool" where
  "matches_globs lib eng name =
     (if include_globs eng \<noteq> [] \<and> \<not> list_ex (fnmatch lib name) (include_globs eng) then False
      else if list_ex (fnmatch lib name) (exclude_globs eng) then False
      else True)"

text \<open>
  The stop event is set by another thread at a time the engine does not choose. Each
  place that tests it is given an oracle that says whether the test finds it set.
\<close>

fun scan_lines ::
  "('rx \<Rightarrow> string \<Rightarrow> bool) \<Rightarrow> 'rx matcher \<Rightarrow> (nat \<Rightarrow> bool) \<Rightarrow> string \<Rightarrow> bool \<Rightarrow> string option \<Rightarrow>
   nat \<Rightarrow> string list \<Rightarrow> match list" where
  \<comment> \<open>\<open>for i, line in enumerate(lines, start=1)\<close>, from line number \<open>i\<close> on.\<close>
  "scan_lines srch rx stop p arc mem i [] = []"
| "scan_lines srch rx stop p arc mem i (line # rest) =
     (if stop i then []
      else (if regex_search srch rx line
            then [\<lparr>m_path = p, m_line_no = i, m_preview = take 200 (strip line),
                   m_is_archive = arc, m_member = mem\<rparr>]
            else []) @ scan_lines srch rx stop p arc mem (Suc i) rest)"

definition content_lines :: "filemap \<Rightarrow> string \<Rightarrow> bool \<Rightarrow> string option \<Rightarrow> string list option" where
  \<comment> \<open>The lines \<open>_search_content\<close> goes on to scan: \<open>None\<close> when it returns \<open>[]\<close> at
      once or an exception takes it to the handler before any line is scanned.\<close>
  "content_lines fs p is_archive member =
     (if is_archive then
        (if path_suffix p = ''.zip'' then
           (case open_zip fs p of
              None \<Rightarrow> None
            | Some ms \<Rightarrow>
               (case member of
                  None \<Rightarrow> None
                | Some n \<Rightarrow>
                   (case find_member ms n of
                      Some (Some content) \<Rightarrow> Some (splitlines False content)
                    | _ \<Rightarrow> None)))
         else if endswith p ''tar.gz'' \<or> endswith p ''.tgz'' then
           (case open_tar fs p of
              None \<Rightarrow> None
            | Some ms \<Rightarrow>
               (case member of
                  None \<Rightarrow> None
                | Some n \<Rightarrow>
                   (case find_member ms n of
                      None \<Rightarrow> None
                    | Some None \<Rightarrow> Some []
                    | Some (Some content) \<Rightarrow> Some (splitlines False content))))
         else Some [])
      else
        (case fs p of
           None \<Rightarrow> None
         | Some f \<Rightarrow>
            if st_size f > MAX_FILE_SIZE_MB * 1024 * 1024 then None
            else if is_binary_file fs p 1024 then None
            else if readable f then Some (readlines (decoded f))
            else None))"

definition search_content ::
  "'rx stdlib \<Rightarrow> filemap \<Rightarrow> 'rx engine \<Rightarrow> (nat \<Rightarrow> bool) \<Rightarrow> string \<Rightarrow> bool \<Rightarrow> string option \<Rightarrow>
   match list" where
  \<comment> \<open>\<open>SearchEngine._search_content\<close>; it raises nothing.\<close>
  "search_content lib fs eng stop p is_archive member =
     (case content_lines fs p is_archive member of
        None \<Rightarrow> []
      | Some ls \<Rightarrow> scan_lines (re_search lib) (compiled eng) stop p is_archive member 1 ls)"

text \<open>
  A directory is what \<open>os.scandir\<close> lists in it: its subdirectories, each with whether
  it is a symbolic link, and its other entries by name. A path that is no directory, or
  that cannot be listed, maps to \<open>None\<close>, and \<open>os.walk\<close> passes over it in silence.
\<close>

type_synonym dirmap = "string \<Rightarrow> ((string \<times> bool) list \<times> string list) option"

type_synonym candidate = "string \<times> bool \<times> string option"

definition default_ignores :: "string list" where
  "default_ignores = [''.git'', ''venv'', ''__pycache__'', ''node_modules'', ''.idea'', ''.vscode'']"

definition prune_dirs :: "options \<Rightarrow> (string \<times> bool) list \<Rightarrow> (string \<times> bool) list" where
  \<comment> \<open>The two assignments to \<open>dirnames[:]\<close>.\<close>
  "prune_dirs os ds =
     (let ds1 = (if \<not> opt_include_hidden os
                 then filter (\<lambda>d. \<not> startswith (fst d) ''.'') ds else ds)
      in if opt_use_default_ignores os
         then filter (\<lambda>d. fst d \<notin> set default_ignores) ds1 else ds1)"

definition archive_members :: "'rx stdlib \<Rightarrow> filemap \<Rightarrow> 'rx engine \<Rightarrow> string \<Rightarrow> candidate list" where
  \<comment> \<open>The members listed for a \<open>.zip\<close>: an archive that cannot be opened lists none.\<close>
  "archive_members lib fs eng p =
     (case open_zip fs p of
        None \<Rightarrow> []
      | Some ms \<Rightarrow>
         map (\<lambda>m. (p, True, Some (fst m)))
           (filter (\<lambda>m. \<not> endswith (fst m) ''/'' \<and> matches_globs lib eng (fst m)) ms))"

definition file_candidates ::
  "'rx stdlib \<Rightarrow> filemap \<Rightarrow> 'rx engine \<Rightarrow> string \<Rightarrow> string \<Rightarrow> candidate list" where
  \<comment> \<open>The body of \<open>for name in filenames\<close>: what one name adds to \<open>candidates\<close>.\<close>
  "file_candidates lib fs eng dirpath name =
     (if \<not> opt_include_hidden (opts eng) \<and> startswith name ''.'' then []
      else if \<not> matches_globs lib eng name then []
      else
        (let p = path_join dirpath name in
           (p, False, None) #
           (if opt_search_archives (opts eng) \<and>
               (endswith name ''.zip'' \<or> endswith name ''.tar.gz'' \<or> endswith name ''.tgz'')
            then (if endswith name ''.zip'' then archive_members lib fs eng p else [])
            else [])))"

fun scan_dir ::
  "nat \<Rightarrow> 'rx stdlib \<Rightarrow> filemap \<Rightarrow> dirmap \<Rightarrow> (string \<Rightarrow> bool) \<Rightarrow> 'rx engine \<Rightarrow> string \<Rightarrow>
   candidate list \<times> bool \<Rightarrow> (candidate list \<times> bool) option"
and scan_subdirs ::
  "nat \<Rightarrow> 'rx stdlib \<Rightarrow> filemap \<Rightarrow> dirmap \<Rightarrow> (string \<Rightarrow> bool) \<Rightarrow> 'rx engine \<Rightarrow> string \<Rightarrow>
   (string \<times> bool) list \<Rightarrow> candidate list \<times> bool \<Rightarrow> (candidate list \<times> bool) option"
where
  \<comment> \<open>The scan phase: the loop over \<open>os.walk\<close>, to a depth of at most \<open>fuel\<close>
      directories (\<open>None\<close> when the tree is deeper). The state is the candidate list
      and whether the loop has left by \<open>break\<close>.\<close>
  "scan_dir 0 lib fs ds stop eng dirpath st = None"
| "scan_dir (Suc fuel) lib fs ds stop eng dirpath st =
     (case ds dirpath of
        None \<Rightarrow> Some st
      | Some (subdirs, filenames) \<Rightarrow>
         if stop dirpath then Some (fst st, True)
         else scan_subdirs fuel lib fs ds stop eng dirpath (prune_dirs (opts eng) subdirs)
                (fst st @ concat (map (file_candidates lib fs eng dirpath) filenames), False))"
| "scan_subdirs fuel lib fs ds stop eng dirpath [] st = Some st"
| "scan_subdirs fuel lib fs ds stop eng dirpath (d # rest) st =
     (if snd st then Some st
      else if opt_follow_symlinks (opts eng) \<or> \<not> snd d then
        (case scan_dir fuel lib fs ds stop eng (path_join dirpath (fst d)) st of
           None \<Rightarrow> None
         | Some st' \<Rightarrow> scan_subdirs fuel lib fs ds stop eng dirpath rest st')
      else scan_subdirs fuel lib fs ds stop eng dirpath rest st)"

datatype event =
    EvProgress search_stats
  | EvMatch match
  | EvWarn int
  | EvDone search_stats
  | EvError string

text \<open>
  \<open>EvWarn m\<close> stands for the message \<open>Max matches (m) reached. Search stopped.\<close>
  A progress event holds the counters as they were when it was put on the queue.
\<close>

record exec_state =
  stats :: search_stats
  out_q :: "event list"
  stop_set :: bool

fun execute ::
  "int \<Rightarrow> (nat \<Rightarrow> bool) \<Rightarrow> nat \<Rightarrow> (exn + match list) list \<Rightarrow> exec_state \<Rightarrow> exec_state" where
  \<comment> \<open>\<open>for f in as_completed(futures)\<close>: the outcomes of the tasks in the order they
      complete, from the \<open>k\<close>-th completion on.\<close>
  "execute mx stop k [] st = st"
| "execute mx stop k (res # rest) st =
     (if stop k then st
      else if int (matches_found (stats st)) \<ge> mx
        then st\<lparr>out_q := out_q st @ [EvWarn mx], stop_set := True\<rparr>
      else
        (let s1 = (stats st)\<lparr>scanned_files := scanned_files (stats st) + 1\<rparr>;
             q1 = (if scanned_files s1 mod 50 = 0 then out_q st @ [EvProgress s1] else out_q st)
         in execute mx stop (Suc k) rest
              (case res of
                 Inl e \<Rightarrow> st\<lparr>stats := s1, out_q := q1\<rparr>
               | Inr ms \<Rightarrow>
                  if ms \<noteq> []
                  then st\<lparr>stats := s1\<lparr>matches_found := matches_found s1 + length ms\<rparr>,
                          out_q := q1 @ map EvMatch ms\<rparr>
                  else st\<lparr>stats := s1, out_q := q1\<rparr>)))"

text \<open>
  The scheduler of a run: what each test of the stop event finds (at the head of a
  directory, of a line of a candidate, of a completion), and the order in which the
  submitted tasks complete.
\<close>

record schedule =
  stop_at_dir :: "string \<Rightarrow> bool"
  stop_at_line :: "candidate \<Rightarrow> nat \<Rightarrow> bool"
  stop_at_task :: "nat \<Rightarrow> bool"
  completion :: "candidate list \<Rightarrow> candidate list"

definition max_matches_of :: "options \<Rightarrow> int" where
  \<comment> \<open>\<open>self.opts.get("max_matches", DEFAULT_MAX_MATCHES)\<close>\<close>
  "max_matches_of os = (case opt_max_matches os of None \<Rightarrow> DEFAULT_MAX_MATCHES | Some m \<Rightarrow> m)"

definition task_result ::
  "'rx stdlib \<Rightarrow> filemap \<Rightarrow> schedule \<Rightarrow> 'rx engine \<Rightarrow> candidate \<Rightarrow> exn + match list" where
  \<comment> \<open>\<open>f.result()\<close> of the task submitted for a candidate.\<close>
  "task_result lib fs sch eng c =
     Inr (search_content lib fs eng (stop_at_line sch c) (fst c) (fst (snd c)) (snd (snd c)))"

definition run ::
  "nat \<Rightarrow> 'rx stdlib \<Rightarrow> filemap \<Rightarrow> dirmap \<Rightarrow> schedule \<Rightarrow> 'rx engine \<Rightarrow> exec_state option" where
  \<comment> \<open>\<open>SearchEngine.run\<close>: the queue and the counters it leaves.\<close>
  "run fuel lib fs ds sch eng =
     (case scan_dir fuel lib fs ds (stop_at_dir sch) eng (root eng) ([], False) of
        None \<Rightarrow> None
      | Some (candidates, stopped) \<Rightarrow>
         (let s0 = \<lparr>scanned_files = 0, total_candidates = length candidates, matches_found = 0\<rparr>;
              results = map (task_result lib fs sch eng) (completion sch candidates);
              st = execute (max_matches_of (opts eng)) (stop_at_task sch) 0 results
                     \<lparr>stats = s0, out_q = [EvProgress s0], stop_set = False\<rparr>
          in Some (st\<lparr>out_q := out_q st @ [EvDone (stats st)]\<rparr>)))"

section \<open>ui.py\<close>

definition run_engine ::
  "nat \<Rightarrow> 'rx stdlib \<Rightarrow> filemap \<Rightarrow> dirmap \<Rightarrow> schedule \<Rightarrow> string \<Rightarrow> options \<Rightarrow> string list \<Rightarrow>
   string list \<Rightarrow> event list option" where
  \<comment> \<open>\<open>App._run_engine\<close>: the engine is constructed, then run; an exception of either
      is put on the queue as an error event.\<close>
  "run_engine fuel lib fs ds sch rt os inc exc =
     (case SearchEngine_init lib rt os inc exc of
        Inl e \<Rightarrow> Some [EvError (message_of e)]
      | Inr eng \<Rightarrow> map_option out_q (run fuel lib fs ds sch eng))"

text \<open>
  The replace job. \<open>find_opts\<close> is the dictionary the dialog builds, with its four
  keys. \<open>JobError n e\<close> stands for the message \<open>f"{n}: {e}"\<close>.
\<close>

record find_options =
  fo_text :: string
  fo_case :: bool
  fo_regex :: bool
  fo_whole :: bool

datatype job_event =
    Step nat string
  | JobError string exn
  | JobDone nat
  | Fatal string

record job_env =
  faults_for :: "string \<Rightarrow> faults"
  temp_for :: "string \<Rightarrow> string"

definition worker_pattern :: "'rx stdlib \<Rightarrow> find_options \<Rightarrow> exn + 'rx matcher option" where
  \<comment> \<open>\<open>rx\<close>: a compiled pattern, or \<open>None\<close> for a plain literal.\<close>
  "worker_pattern lib fo =
     (let ignorecase = \<not> fo_case fo in
        if fo_regex fo then
          (case re_compile lib (fo_text fo) ignorecase of
             Inl msg \<Rightarrow> Inl (ReError msg)
           | Inr r \<Rightarrow> Inr (Some (Regex r)))
        else if fo_whole fo then Inr (Some (WholeWord ignorecase (fo_text fo)))
        else Inr None)"

definition lib_sub :: "'rx stdlib \<Rightarrow> 'rx matcher \<Rightarrow> string \<Rightarrow> string \<Rightarrow> exn + string" where
  "lib_sub lib rx repl s =
     (case re_sub lib rx repl s of Inl msg \<Rightarrow> Inl (ReError msg) | Inr t \<Rightarrow> Inr t)"

definition new_text_of ::
  "'rx stdlib \<Rightarrow> 'rx matcher option \<Rightarrow> find_options \<Rightarrow> string \<Rightarrow> string \<Rightarrow> exn + string" where
  "new_text_of lib rx fo repl old_text =
     (case rx of
        Some r \<Rightarrow> lib_sub lib r repl old_text
      | None \<Rightarrow>
         if fo_case fo then Inr (str_replace (fo_text fo) repl old_text)
         else lib_sub lib (Literal True (fo_text fo)) repl old_text)"

definition replace_file ::
  "'rx stdlib \<Rightarrow> job_env \<Rightarrow> 'rx matcher option \<Rightarrow> find_options \<Rightarrow> string \<Rightarrow> bool \<Rightarrow> filemap \<Rightarrow>
   string \<Rightarrow> filemap \<times> (exn + bool)" where
  \<comment> \<open>The body of the inner \<open>try\<close> for one file, up to the step event: the exception
      that leaves it, or whether the file was written.\<close>
  "replace_file lib env rx fo repl backup fs p =
     (let old_text = concat (read_file_lines fs p False None) in
        case new_text_of lib rx fo repl old_text of
          Inl e \<Rightarrow> (fs, Inl e)
        | Inr new_text \<Rightarrow>
           if new_text \<noteq> old_text then
             (case atomic_write (faults_for env p) (temp_for env p) fs p new_text backup of
                (fs', Some e) \<Rightarrow> (fs', Inl e)
              | (fs', None) \<Rightarrow> (fs', Inr True))
           else (fs, Inr False))"

definition file_event :: "nat \<Rightarrow> string \<Rightarrow> exn + bool \<Rightarrow> job_event" where
  \<comment> \<open>What the \<open>i\<close>-th file of the job puts on the queue.\<close>
  "file_event i p r =
     (case r of Inl e \<Rightarrow> JobError (path_name p) e | Inr changed \<Rightarrow> Step (i + 1) (path_name p))"

fun replace_files ::
  "'rx stdlib \<Rightarrow> job_env \<Rightarrow> 'rx matcher option \<Rightarrow> find_options \<Rightarrow> string \<Rightarrow> bool \<Rightarrow> nat \<Rightarrow>
   (string \<times> string) list \<Rightarrow> filemap \<times> nat \<times> job_event list \<Rightarrow> filemap \<times> nat \<times> job_event list" where
  \<comment> \<open>\<open>for i, (item_id, path) in enumerate(self.file_map.items())\<close>, from index
      \<open>i\<close> on; the state is the file system, \<open>count\<close> and the queue.\<close>
  "replace_files lib env rx fo repl backup i [] st = st"
| "replace_files lib env rx fo repl backup i (item # rest) (fs, count, q) =
     (case replace_file lib env rx fo repl backup fs (snd item) of
        (fs', r) \<Rightarrow>
          replace_files lib env rx fo repl backup (Suc i) rest
            (fs', (case r of Inr True \<Rightarrow> count + 1 | _ \<Rightarrow> count),
             q @ [file_event i (snd item) r]))"

definition ReplacementWorker_run ::
  "'rx stdlib \<Rightarrow> job_env \<Rightarrow> filemap \<Rightarrow> (string \<times> string) list \<Rightarrow> find_options \<Rightarrow> string \<Rightarrow> bool \<Rightarrow>
   filemap \<times> job_event list" where
  "ReplacementWorker_run lib env fs file_map fo repl backup =
     (case worker_pattern lib fo of
        Inl e \<Rightarrow> (fs, [Fatal (message_of e)])
      | Inr rx \<Rightarrow>
         (case replace_files lib env rx fo repl backup 0 file_map (fs, 0, []) of
            (fs', count, q) \<Rightarrow> (fs', q @ [JobDone count])))"

section \<open>Notions used in the statements\<close>

fun result_count :: "exn + match list \<Rightarrow> nat" where
  \<comment> \<open>The matches a completed task adds to \<open>matches_found\<close>.\<close>
  "result_count (Inl e) = 0"
| "result_count (Inr ms) = length ms"

definition total_count :: "(exn + match list) list \<Rightarrow> nat" where
  "total_count rs = sum_list (map result_count rs)"

fun matches_of :: "event list \<Rightarrow> match list" where
  \<comment> \<open>The match events of a queue, in order.\<close>
  "matches_of [] = []"
| "matches_of (EvMatch m # es) = m # matches_of es"
| "matches_of (e # es) = matches_of es"

fun warnings_of :: "event list \<Rightarrow> int list" where
  \<comment> \<open>The warn events of a queue, in order.\<close>
  "warnings_of [] = []"
| "warnings_of (EvWarn m # es) = m # warnings_of es"
| "warnings_of (e # es) = warnings_of es"

definition consume :: "exn + match list \<Rightarrow> exec_state \<Rightarrow> exec_state" where
  \<comment> \<open>One pass through the body of the execution loop below its two tests.\<close>
  "consume res st =
     (let s1 = (stats st)\<lparr>scanned_files := scanned_files (stats st) + 1\<rparr>;
          q1 = (if scanned_files s1 mod 50 = 0 then out_q st @ [EvProgress s1] else out_q st)
      in case res of
           Inl e \<Rightarrow> st\<lparr>stats := s1, out_q := q1\<rparr>
         | Inr ms \<Rightarrow>
            if ms \<noteq> []
            then st\<lparr>stats := s1\<lparr>matches_found := matches_found s1 + length ms\<rparr>,
                    out_q := q1 @ map EvMatch ms\<rparr>
            else st\<lparr>stats := s1, out_q := q1\<rparr>)"

section \<open>Example inputs\<close>

definition text_file :: "string \<Rightarrow> regular_file" where
  \<comment> \<open>A readable file of ASCII text that is no archive.\<close>
  "text_file s = \<lparr>raw = s, decoded = s, readable = True, zip_members = None, tar_members = None\<rparr>"

definition one_file :: "string \<Rightarrow> regular_file \<Rightarrow> filemap" where
  "one_file p f = (\<lambda>q. if q = p then Some f else None)"

definition fails_at :: "fs_op \<Rightarrow> exn \<Rightarrow> faults" where
  "fails_at op e = (\<lambda>o'. if o' = op then Some e else None)"

definition no_faults :: faults where
  "no_faults = (\<lambda>op. None)"

definition a_match :: "nat \<Rightarrow> match" where
  "a_match i = \<lparr>m_path = ''/r/a.txt'', m_line_no = i, m_preview = ''x'', m_is_archive = False,
               m_member = None\<rparr>"

definition start_state :: "nat \<Rightarrow> exec_state" where
  \<comment> \<open>The state in which \<open>run\<close> enters the execution loop.\<close>
  "start_state n =
     \<lparr>stats = \<lparr>scanned_files = 0, total_candidates = n, matches_found = 0\<rparr>,
      out_q = [EvProgress \<lparr>scanned_files = 0, total_candidates = n, matches_found = 0\<rparr>],
      stop_set = False\<rparr>"

definition rename_failure :: "filemap \<times> exn option" where
  \<comment> \<open>A write over \<open>/d/a.txt\<close>, with a backup, whose rename fails.\<close>
  "rename_failure =
     atomic_write (fails_at OpReplace (OSError ''Permission denied'')) ''/d/tmpx''
       (one_file ''/d/a.txt'' (text_file ''old'')) ''/d/a.txt'' ''new'' True"

definition full_disk_write :: "filemap \<times> exn option" where
  \<comment> \<open>A write over \<open>/d/a.txt\<close> on a full disk: the temporary file is created, the
      write to it fails.\<close>
  "full_disk_write =
     atomic_write (fails_at OpWrite (OSError ''No space left on device'')) ''/d/tmpx''
       (one_file ''/d/a.txt'' (text_file ''old'')) ''/d/a.txt'' ''new'' True"

definition stub_lib :: "unit stdlib" where
  \<comment> \<open>A library that rejects the pattern \<open>[\<close> and matches nothing.\<close>
  "stub_lib =
     \<lparr>re_compile = (\<lambda>p ic. if p = ''['' then Inl ''unterminated character set at position 0''
                            else Inr ()),
      re_search = (\<lambda>r s. False),
      re_sub = (\<lambda>r repl s. Inr s),
      fnmatch = (\<lambda>n p. p = ''*'' \<or> n = p)\<rparr>"

definition plain_options :: "string \<Rightarrow> options" where
  \<comment> \<open>The options of a literal search that ignores case, as the dialog builds them.\<close>
  "plain_options t =
     \<lparr>opt_text = Some t, opt_case = False, opt_regex = False, opt_whole_word = False,
      opt_include_hidden = False, opt_use_default_ignores = True, opt_follow_symlinks = False,
      opt_search_archives = False, opt_max_matches = None\<rparr>"

definition literal_engine :: "string \<Rightarrow> unit engine" where
  \<comment> \<open>The engine \<open>SearchEngine_init\<close> builds from \<open>plain_options\<close>.\<close>
  "literal_engine t =
     \<lparr>root = ''/r'', opts = plain_options t, include_globs = [], exclude_globs = [],
      compiled = Literal True t\<rparr>"

definition never :: "'a \<Rightarrow> bool" where
  \<comment> \<open>The stop event is never found set.\<close>
  "never x = False"

definition calm :: schedule where
  \<comment> \<open>No cancellation; the tasks complete in the order of their submission.\<close>
  "calm = \<lparr>stop_at_dir = never, stop_at_line = (\<lambda>c. never), stop_at_task = never,
            completion = id\<rparr>"

definition quiet_env :: job_env where
  \<comment> \<open>Nothing fails, and \<open>tempfile\<close> picks the same new name each time.\<close>
  "quiet_env = \<lparr>faults_for = (\<lambda>p. no_faults), temp_for = (\<lambda>p. ''/r/tmpk3v9_x2'')\<rparr>"

definition foo_options :: find_options where
  \<comment> \<open>The literal, case-sensitive search for \<open>foo\<close>.\<close>
  "foo_options = \<lparr>fo_text = ''foo'', fo_case = True, fo_regex = False, fo_whole = False\<rparr>"

definition exact_engine :: "string \<Rightarrow> unit engine" where
  \<comment> \<open>The engine of a literal, case-sensitive search.\<close>
  "exact_engine t =
     \<lparr>root = ''/r'', opts = (plain_options t)\<lparr>opt_case := True\<rparr>, include_globs = [],
      exclude_globs = [], compiled = Literal False t\<rparr>"

definition unreadable :: "regular_file \<Rightarrow> regular_file" where
  \<comment> \<open>The same file without the permission to read it.\<close>
  "unreadable f = f\<lparr>readable := False\<rparr>"

definition foo_job :: "filemap \<times> job_event list" where
  \<comment> \<open>The job that replaces \<open>foo\<close> by \<open>baz\<close> in one file holding \<open>foo bar foo\<close>.\<close>
  "foo_job =
     ReplacementWorker_run stub_lib quiet_env (one_file ''/r/a.txt'' (text_file ''foo bar foo''))
       [(''I001'', ''/r/a.txt'')] foo_options ''baz'' False"

definition locked_job :: "filemap \<times> job_event list" where
  \<comment> \<open>The same job over a file that cannot be read.\<close>
  "locked_job =
     ReplacementWorker_run stub_lib quiet_env
       (one_file ''/r/a.txt'' (unreadable (text_file ''foo bar foo'')))
       [(''I001'', ''/r/a.txt'')] foo_options ''baz'' False"

definition failing_env :: job_env where
  \<comment> \<open>The temporary file cannot be created beside \<open>/r/a.txt\<close>; nothing else fails.\<close>
  "failing_env =
     \<lparr>faults_for = (\<lambda>p. if p = ''/r/a.txt'' then fails_at OpCreate (OSError ''Read-only file system'')
                         else no_faults),
      temp_for = (\<lambda>p. ''/r/tmpk3v9_x2'')\<rparr>"

definition two_file_job :: "filemap \<times> job_event list" where
  \<comment> \<open>A job over two files holding \<open>foo\<close>, the first of which cannot be written.\<close>
  "two_file_job =
     ReplacementWorker_run stub_lib failing_env
       (\<lambda>q. if q = ''/r/a.txt'' \<or> q = ''/r/b.txt'' then Some (text_file ''foo'') else None)
       [(''I001'', ''/r/a.txt''), (''I002'', ''/r/b.txt'')] foo_options ''baz'' False"

definition two_hits_fs :: filemap where
  \<comment> \<open>Two text files: \<open>foo\<close> on two lines of the first, on one line of the second.\<close>
  "two_hits_fs =
     (\<lambda>q. if q = ''/r/a.txt'' then Some (text_file (''foo'' @ [LF] @ ''foo'' @ [LF]))
          else if q = ''/r/b.txt'' then Some (text_file (''foo'' @ [LF]))
          else None)"

definition two_files_dir :: dirmap where
  \<comment> \<open>The directory \<open>/r\<close> lists these two files and nothing else.\<close>
  "two_files_dir = (\<lambda>d. if d = ''/r'' then Some ([], [''a.txt'', ''b.txt'']) else None)"

definition ceiling_engine :: "unit engine" where
  \<comment> \<open>The literal search for \<open>foo\<close> with \<open>max_matches = 1\<close>.\<close>
  "ceiling_engine =
     (literal_engine ''foo'')\<lparr>opts := (plain_options ''foo'')\<lparr>opt_max_matches := Some 1\<rparr>\<rparr>"

definition two_hits_run :: "exec_state option" where
  \<comment> \<open>The run over the two files; the task of \<open>a.txt\<close> completes first.\<close>
  "two_hits_run = run (Suc 0) stub_lib two_hits_fs two_files_dir calm ceiling_engine"

definition zip_file :: regular_file where
  \<comment> \<open>A zip archive with the one member \<open>hello.txt\<close>; its bytes begin with the local file header, which holds NUL bytes.\<close>
  "zip_file =
     \<lparr>raw = [CHR ''P'', CHR ''K'', CHR 0x03, CHR 0x04, CHR 0x14, CHR 0x00, CHR 0x00, CHR 0x00],
      decoded = ''PK'',
      readable = True,
      zip_members = Some [(''hello.txt'', Some (''say'' @ [LF] @ ''a needle here'' @ [LF]))],
      tar_members = None\<rparr>"

definition zip_dir :: dirmap where
  \<comment> \<open>The directory \<open>/r\<close> lists the archive and nothing else.\<close>
  "zip_dir = (\<lambda>d. if d = ''/r'' then Some ([], [''a.zip'']) else None)"

definition archive_options :: "bool \<Rightarrow> options" where
  \<comment> \<open>The literal search for \<open>needle\<close>, with or without \<open>search_archives\<close>.\<close>
  "archive_options a = (plain_options ''needle'')\<lparr>opt_search_archives := a\<rparr>"

definition archive_engine :: "bool \<Rightarrow> unit engine" where
  \<comment> \<open>The engine \<open>SearchEngine_init\<close> builds from \<open>archive_options\<close>.\<close>
  "archive_engine a = (literal_engine ''needle'')\<lparr>opts := archive_options a\<rparr>"

section \<open>Properties of \<open>atomic_write\<close>\<close>

text \<open>
  The handler covers the \<open>try\<close> block. The temporary file has been created and
  written, it is a new name other than the target, and its removal does not fail: then
  whenever \<open>atomic_write\<close> raises, that is whenever the copy of the backup or the rename
  fails, the temporary file is gone, the target is the file it was, and the exception
  raised is the one of the step that failed.
\<close>

lemma try_block_failure_cleans_up:
  assumes created: "flt OpCreate = None" "flt OpWrite = None"
      and removable: "flt OpRemove = None"
      and fresh: "fs tmp = None" "tmp \<noteq> p"
      and raised: "atomic_write flt tmp fs p content make_backup = (fs', Some e)"
  shows "fs' tmp = None \<and> fs' p = fs p \<and>
         Some e \<in> {snd (backup_copy flt (fs(tmp \<mapsto> written_file content)) p make_backup),
                   flt OpReplace}"
proof -
  let ?fs2 = "fs(tmp \<mapsto> written_file content)"
  obtain fs3 r where b: "backup_copy flt ?fs2 p make_backup = (fs3, r)"
    by (cases "backup_copy flt ?fs2 p make_backup")
  have tmp3: "fs3 tmp \<noteq> None" and p3: "fs3 p = fs p"
    using b fresh by (auto simp: backup_copy_def split: if_splits option.splits)
  show ?thesis
  proof (cases r)
    case (Some e0)
    with raised created removable b tmp3 p3 fresh show ?thesis
      by (auto simp: atomic_write_def cleanup_def)
  next
    case None
    with raised created removable b tmp3 p3 fresh show ?thesis
      by (auto simp: atomic_write_def cleanup_def split: option.splits)
  qed
qed

lemma rename_failure_raises: "snd rename_failure = Some (OSError ''Permission denied'')"
  by (simp add: rename_failure_def atomic_write_def backup_copy_def cleanup_def fails_at_def
      one_file_def path_name_def text_file_def Let_def)

lemma rename_failure_cleans_up:
  "snd rename_failure = Some (OSError ''Permission denied'') \<and>
   fst rename_failure ''/d/tmpx'' = None \<and>
   fst rename_failure ''/d/a.txt'' = Some (text_file ''old'')"
proof -
  let ?flt = "fails_at OpReplace (OSError ''Permission denied'')"
  let ?fs = "one_file ''/d/a.txt'' (text_file ''old'')"
  have h: "?flt OpCreate = None" "?flt OpWrite = None" "?flt OpRemove = None"
          "?fs ''/d/tmpx'' = None" "''/d/tmpx'' \<noteq> ''/d/a.txt''"
    by (simp_all add: fails_at_def one_file_def)
  have r: "atomic_write ?flt ''/d/tmpx'' ?fs ''/d/a.txt'' ''new'' True
             = (fst rename_failure, Some (OSError ''Permission denied''))"
    using rename_failure_raises by (simp add: rename_failure_def prod_eq_iff)
  from try_block_failure_cleans_up[OF h r] rename_failure_raises
  show ?thesis by (simp add: one_file_def)
qed

lemma write_failure_leaves_temp:
  "flt OpCreate = None \<Longrightarrow> flt OpWrite = Some e \<Longrightarrow>
   atomic_write flt tmp fs p content bk = (fs(tmp \<mapsto> written_file []), Some e)"
  by (simp add: atomic_write_def)

text \<open>
  C1. The claim promises the removal of the temporary file for every failure between its
  creation and the rename. It fails for a failure of the write itself: \<open>tf.write\<close> and
  the close of the file run inside the \<open>with\<close> block, before the \<open>try\<close>, so no handler
  runs. When the write fails on a full disk, the error is raised and the target is
  untouched, but the temporary file stays in the directory.
\<close>

theorem write_failure_leaves_temp_file:
  "snd full_disk_write = Some (OSError ''No space left on device'') \<and>
   fst full_disk_write ''/d/a.txt'' = Some (text_file ''old'') \<and>
   fst full_disk_write ''/d/tmpx'' = Some (written_file [])"
  by (simp add: full_disk_write_def atomic_write_def fails_at_def one_file_def)

section \<open>Properties of the execution loop\<close>

lemma matches_of_append: "matches_of (xs @ ys) = matches_of xs @ matches_of ys"
  by (induction xs rule: matches_of.induct) auto

lemma matches_of_map: "matches_of (map EvMatch ms) = ms"
  by (induction ms) auto

lemma warnings_of_append: "warnings_of (xs @ ys) = warnings_of xs @ warnings_of ys"
  by (induction xs rule: warnings_of.induct) auto

lemma warnings_of_map: "warnings_of (map EvMatch ms) = []"
  by (induction ms) auto

lemma execute_Cons:
  "execute mx stop k (res # rest) st =
     (if stop k then st
      else if int (matches_found (stats st)) \<ge> mx
        then st\<lparr>out_q := out_q st @ [EvWarn mx], stop_set := True\<rparr>
      else execute mx stop (Suc k) rest (consume res st))"
  by (simp add: consume_def Let_def)

lemma consume_found:
  "matches_found (stats (consume res st)) = matches_found (stats st) + result_count res"
  by (cases res) (auto simp: consume_def Let_def)

lemma consume_matches:
  "matches_of (out_q (consume res st)) =
     matches_of (out_q st) @ (case res of Inl e \<Rightarrow> [] | Inr ms \<Rightarrow> ms)"
  by (cases res) (auto simp: consume_def Let_def matches_of_append matches_of_map)

lemma consume_warnings: "warnings_of (out_q (consume res st)) = warnings_of (out_q st)"
  by (cases res) (auto simp: consume_def Let_def warnings_of_append warnings_of_map)

lemma consume_scanned:
  "scanned_files (stats (consume res st)) = Suc (scanned_files (stats st))"
  by (cases res) (auto simp: consume_def Let_def)

lemma consume_stop_set: "stop_set (consume res st) = stop_set st"
  by (cases res) (auto simp: consume_def Let_def)

lemma execute_found:
  "matches_found (stats (execute mx stop k rs st)) = matches_found (stats st) \<or>
   (\<exists>i<length rs.
      matches_found (stats (execute mx stop k rs st)) =
        matches_found (stats st) + total_count (take (Suc i) rs) \<and>
      int (matches_found (stats st) + total_count (take i rs)) < mx)"
proof (induction rs arbitrary: k st)
  case Nil
  then show ?case by simp
next
  case (Cons res rest)
  let ?f = "matches_found (stats st)"
  show ?case
  proof (cases "stop k \<or> int ?f \<ge> mx")
    case True
    then show ?thesis by (auto simp: execute_Cons)
  next
    case False
    let ?st1 = "consume res st"
    let ?fin = "matches_found (stats (execute mx stop (Suc k) rest ?st1))"
    have ex: "execute mx stop k (res # rest) st = execute mx stop (Suc k) rest ?st1"
      using False by (simp add: execute_Cons del: execute.simps)
    have f1: "matches_found (stats ?st1) = ?f + result_count res"
      by (rule consume_found)
    from Cons.IH[of "Suc k" ?st1]
    consider (same) "?fin = ?f + result_count res"
      | (later) i where "i < length rest"
          "?fin = ?f + result_count res + total_count (take (Suc i) rest)"
          "int (?f + result_count res + total_count (take i rest)) < mx"
      using f1 by auto
    then show ?thesis
    proof cases
      case same
      have "0 < length (res # rest)" by simp
      moreover have "?fin = ?f + total_count (take (Suc 0) (res # rest))"
        using same by (simp add: total_count_def)
      moreover have "int (?f + total_count (take 0 (res # rest))) < mx"
        using False by (simp add: total_count_def)
      ultimately show ?thesis unfolding ex by blast
    next
      case later
      have "Suc i < length (res # rest)" using later(1) by simp
      moreover have "?fin = ?f + total_count (take (Suc (Suc i)) (res # rest))"
        using later(2) by (simp add: total_count_def)
      moreover have "int (?f + total_count (take (Suc i) (res # rest))) < mx"
        using later(3) by (simp add: total_count_def)
      ultimately show ?thesis unfolding ex by blast
    qed
  qed
qed

lemma total_count_take_nth:
  "i < length rs \<Longrightarrow>
   total_count (take (Suc i) rs) = total_count (take i rs) + result_count (rs ! i)"
  by (simp add: total_count_def take_Suc_conv_app_nth)

text \<open>
  C3. The ceiling is a count, \<open>0 \<le> mx\<close>, and the loop starts with \<open>matches_found = 0\<close>.
  After any number \<open>n\<close> of completions, \<open>matches_found\<close> is at most the ceiling, or it is
  the count of the first \<open>i\<close> tasks, which was below the ceiling, plus the matches of
  task \<open>i\<close>: it exceeds the ceiling by less than the matches of that one task. The
  ceiling is tested at the head of a completion only: a task that passes the test has
  all its matches counted and emitted, however many they are.
\<close>

theorem matches_found_bounded:
  assumes "0 \<le> mx" and "matches_found (stats st0) = 0"
  shows "(let found = matches_found (stats (execute mx stop 0 (take n rs) st0)) in
            int found \<le> mx \<or>
            (\<exists>i<length rs. found = total_count (take i rs) + result_count (rs ! i) \<and>
                            int (total_count (take i rs)) < mx \<and>
                            int found < mx + int (result_count (rs ! i)))) \<and>
         (\<not> stop k \<and> int (matches_found (stats st)) < mx \<longrightarrow>
            matches_found (stats (execute mx stop k [Inr ms] st)) =
              matches_found (stats st) + length ms \<and>
            matches_of (out_q (execute mx stop k [Inr ms] st)) = matches_of (out_q st) @ ms)"
proof -
  let ?rs = "take n rs"
  let ?found = "matches_found (stats (execute mx stop 0 ?rs st0))"
  have first: "int ?found \<le> mx \<or>
      (\<exists>i<length rs. ?found = total_count (take i rs) + result_count (rs ! i) \<and>
                      int (total_count (take i rs)) < mx \<and>
                      int ?found < mx + int (result_count (rs ! i)))"
  proof -
    from execute_found[of mx stop 0 ?rs st0]
    consider "?found = 0"
      | i where "i < length ?rs" "?found = total_count (take (Suc i) ?rs)"
                "int (total_count (take i ?rs)) < mx"
      using assms(2) by auto
    then show ?thesis
    proof cases
      case 1
      then show ?thesis using assms(1) by simp
    next
      case 2
      then have i: "i < length rs" "i < n" by simp_all
      have t1: "take (Suc i) ?rs = take (Suc i) rs" and t0: "take i ?rs = take i rs"
        using i by (simp_all add: min_def)
      have "?found = total_count (take i rs) + result_count (rs ! i)"
        using 2(2) t1 i total_count_take_nth by simp
      moreover have "int (total_count (take i rs)) < mx" using 2(3) t0 by simp
      ultimately show ?thesis using i by auto
    qed
  qed
  have second: "\<not> stop k \<and> int (matches_found (stats st)) < mx \<longrightarrow>
            matches_found (stats (execute mx stop k [Inr ms] st)) =
              matches_found (stats st) + length ms \<and>
            matches_of (out_q (execute mx stop k [Inr ms] st)) = matches_of (out_q st) @ ms"
    by (simp add: execute_Cons consume_found consume_matches del: execute.simps(2))
  show ?thesis using first second by (simp add: Let_def)
qed

theorem matches_found_bounded_witness:
  "(0::int) \<le> 1 \<and> matches_found (stats (start_state 2)) = 0 \<and>
   matches_found (stats (execute 1 (\<lambda>k. False) 0 [Inr [a_match 1, a_match 2]] (start_state 2)))
     = 2 \<and>
   matches_of (out_q (execute 1 (\<lambda>k. False) 0 [Inr [a_match 1, a_match 2]] (start_state 2)))
     = [a_match 1, a_match 2]"
proof -
  have h: "(0::int) \<le> 1" "matches_found (stats (start_state 2)) = 0"
    by (simp_all add: start_state_def)
  from matches_found_bounded[OF h, of "\<lambda>k. False" 0 "[]" 0 "start_state 2"
      "[a_match 1, a_match 2]"]
  show ?thesis by (simp add: start_state_def)
qed

section \<open>Properties of the engine\<close>

text \<open>
  C6. With \<open>regex\<close> set and a pattern that \<open>re.compile\<close> rejects with the message
  \<open>msg\<close>, the construction raises \<open>ValueError("Invalid regex: " + msg)\<close>. The
  construction takes neither the file system nor the queue: whatever they are, the only
  event of \<open>_run_engine\<close> is the error event its caller puts for this exception.
\<close>

theorem invalid_regex_raises_at_construction:
  assumes "opt_regex os"
      and "re_compile lib (case opt_text os of None \<Rightarrow> [] | Some t \<Rightarrow> t) (\<not> opt_case os) = Inl msg"
  shows "SearchEngine_init lib rt os inc exc = Inl (ValueError (''Invalid regex: '' @ msg)) \<and>
         run_engine fuel lib fs ds sch rt os inc exc = Some [EvError (''Invalid regex: '' @ msg)]"
  using assms by (simp add: SearchEngine_init_def run_engine_def Let_def)

theorem invalid_regex_raises_at_construction_witness:
  "SearchEngine_init stub_lib ''/r'' ((plain_options ''['')\<lparr>opt_regex := True\<rparr>) [] []
     = Inl (ValueError ''Invalid regex: unterminated character set at position 0'') \<and>
   run_engine 3 stub_lib Map.empty Map.empty
       calm
       ''/r'' ((plain_options ''['')\<lparr>opt_regex := True\<rparr>) [] []
     = Some [EvError ''Invalid regex: unterminated character set at position 0'']"
proof -
  let ?os = "(plain_options ''['')\<lparr>opt_regex := True\<rparr>"
  have h: "opt_regex ?os"
    "re_compile stub_lib (case opt_text ?os of None \<Rightarrow> [] | Some t \<Rightarrow> t) (\<not> opt_case ?os)
       = Inl ''unterminated character set at position 0''"
    by (simp_all add: plain_options_def stub_lib_def)
  from invalid_regex_raises_at_construction[OF h] show ?thesis by simp
qed

lemmas char_class_defs = ch_eq_def lower_code_def is_word_def is_space_def is_linebreak_def
  LF_def CR_def NUL_def

lemmas word_defs = word_here_def boundary_def word_of_def first_of_def last_of_def

lemma plain_lines:
  "fs p = Some f \<Longrightarrow> readable f \<Longrightarrow> st_size f \<le> 10485760 \<Longrightarrow> NUL \<notin> set (take 1024 (raw f)) \<Longrightarrow>
   content_lines fs p False None = Some (readlines (decoded f))"
  by (simp add: content_lines_def is_binary_file_def MAX_FILE_SIZE_MB_def)

text \<open>
  C7. The literal pattern \<open>World\<close> matches the line \<open>world\<close> exactly when \<open>case\<close> is
  unset. With \<open>whole_word\<close>, whatever \<open>case\<close> is, \<open>cat\<close> does not match
  \<open>concatenate\<close> and matches \<open>the cat sat\<close>; a file holding that one line yields
  exactly one match, at line 1.
\<close>

theorem literal_case_and_whole_word:
  "(case SearchEngine_init lib rt
           (os\<lparr>opt_text := Some ''World'', opt_case := cs, opt_regex := False,
               opt_whole_word := False\<rparr>) inc exc of
      Inl e \<Rightarrow> False
    | Inr eng \<Rightarrow> regex_search (re_search lib) (compiled eng) ''world'' = (\<not> cs)) \<and>
   (case SearchEngine_init lib rt
           (os\<lparr>opt_text := Some ''cat'', opt_regex := False, opt_whole_word := True\<rparr>) inc exc of
      Inl e \<Rightarrow> False
    | Inr eng \<Rightarrow>
        \<not> regex_search (re_search lib) (compiled eng) ''concatenate'' \<and>
        regex_search (re_search lib) (compiled eng) ''the cat sat'' \<and>
        search_content lib (one_file p (text_file ''concatenate'')) eng never p False None = [] \<and>
        search_content lib (one_file p (text_file ''the cat sat'')) eng never p False None
          = [\<lparr>m_path = p, m_line_no = 1, m_preview = ''the cat sat'', m_is_archive = False,
              m_member = None\<rparr>])"
proof -
  have a: "literal_search (\<not> cs) ''World'' ''world'' = (\<not> cs)"
    by (cases cs) (simp_all add: char_class_defs)
  have b: "\<not> word_search ic ''cat'' None ''concatenate''" for ic
    by (simp add: word_defs is_word_def)
  have c: "word_search ic ''cat'' None ''the cat sat''" for ic
    by (simp add: word_defs is_word_def ch_eq_def)
  have l1: "content_lines (one_file p (text_file s)) p False None = Some (readlines s)"
    if "length s \<le> 20" "NUL \<notin> set s" for s
    using that
    by (subst plain_lines[where f = "text_file s"])
       (auto simp: one_file_def text_file_def st_size_def dest: in_set_takeD)
  have r1: "readlines ''concatenate'' = [''concatenate'']"
    by (simp add: readlines_def char_class_defs)
  have r2: "readlines ''the cat sat'' = [''the cat sat'']"
    by (simp add: readlines_def char_class_defs)
  have s2: "strip ''the cat sat'' = ''the cat sat''"
    by (simp add: strip_def is_space_def)
  show ?thesis
    using a b c
    by (simp add: SearchEngine_init_def Let_def search_content_def l1 NUL_def r1 r2 s2 never_def)
qed

theorem literal_case_and_whole_word_witness:
  "regex_search (re_search stub_lib) (Literal True ''World'') ''world'' \<and>
   \<not> regex_search (re_search stub_lib) (Literal False ''World'') ''world'' \<and>
   \<not> regex_search (re_search stub_lib) (WholeWord True ''cat'') ''concatenate'' \<and>
   regex_search (re_search stub_lib) (WholeWord True ''cat'') ''the cat sat''"
proof -
  from literal_case_and_whole_word[where lib = stub_lib and rt = "''/r''"
      and os = "plain_options ''x''" and cs = False and inc = "[]" and exc = "[]"
      and p = "''/r/a.txt''"]
    literal_case_and_whole_word[where lib = stub_lib and rt = "''/r''"
      and os = "plain_options ''x''" and cs = True and inc = "[]" and exc = "[]"
      and p = "''/r/a.txt''"]
  show ?thesis
    by (simp add: SearchEngine_init_def Let_def plain_options_def char_class_defs word_defs)
qed

text \<open>
  C8. A plain candidate that cannot be examined (\<open>stat\<close> raises), that is larger than
  10 MiB, that holds a NUL among its first 1024 bytes, or that cannot be opened yields no
  match, whatever its content and the pattern, and its task returns this empty list.
\<close>

theorem skipped_files_yield_nothing:
  assumes "case fs p of
             None \<Rightarrow> True
           | Some f \<Rightarrow> st_size f > 10 * 1024 * 1024 \<or> NUL \<in> set (take 1024 (raw f)) \<or> \<not> readable f"
  shows "search_content lib fs eng stop p False None = [] \<and>
         task_result lib fs sch eng (p, False, None) = Inr []"
  using assms
  by (auto simp: search_content_def task_result_def content_lines_def is_binary_file_def
      MAX_FILE_SIZE_MB_def split: option.splits)

theorem skipped_files_yield_nothing_witness:
  "search_content stub_lib (one_file ''/r/b.bin'' (text_file (''needle'' @ [NUL])))
     (literal_engine ''needle'') never ''/r/b.bin'' False None = [] \<and>
   search_content stub_lib (one_file ''/r/big.txt'' (text_file (replicate 10485761 CHR ''n'')))
     (literal_engine ''n'') never ''/r/big.txt'' False None = [] \<and>
   task_result stub_lib (\<lambda>q. None) calm (literal_engine ''needle'') (''/r/gone.txt'', False, None)
     = Inr []"
proof -
  have a: "case one_file ''/r/b.bin'' (text_file (''needle'' @ [NUL])) ''/r/b.bin'' of
             None \<Rightarrow> True
           | Some f \<Rightarrow> st_size f > 10 * 1024 * 1024 \<or> NUL \<in> set (take 1024 (raw f)) \<or>
                       \<not> readable f"
    by (simp add: one_file_def text_file_def)
  have b: "case one_file ''/r/big.txt'' (text_file (replicate 10485761 CHR ''n'')) ''/r/big.txt'' of
             None \<Rightarrow> True
           | Some f \<Rightarrow> st_size f > 10 * 1024 * 1024 \<or> NUL \<in> set (take 1024 (raw f)) \<or>
                       \<not> readable f"
    by (simp add: one_file_def text_file_def st_size_def)
  have c: "case (\<lambda>q. None :: regular_file option) ''/r/gone.txt'' of
             None \<Rightarrow> True
           | Some f \<Rightarrow> st_size f > 10 * 1024 * 1024 \<or> NUL \<in> set (take 1024 (raw f)) \<or>
                       \<not> readable f"
    by simp
  from skipped_files_yield_nothing[where p = "''/r/b.bin''"
        and fs = "one_file ''/r/b.bin'' (text_file (''needle'' @ [NUL]))"
        and lib = stub_lib and eng = "literal_engine ''needle''" and stop = never
        and sch = calm, OF a]
    skipped_files_yield_nothing[where p = "''/r/big.txt''"
        and fs = "one_file ''/r/big.txt'' (text_file (replicate 10485761 CHR ''n''))"
        and lib = stub_lib and eng = "literal_engine ''n''" and stop = never
        and sch = calm, OF b]
    skipped_files_yield_nothing[where p = "''/r/gone.txt''"
        and fs = "\<lambda>q. None :: regular_file option"
        and lib = stub_lib and eng = "literal_engine ''needle''" and stop = never
        and sch = calm, OF c]
  show ?thesis by simp
qed

lemma literal_search_empty: "literal_search ic [] s"
  by (cases s) simp_all

lemma scan_lines_all:
  assumes "\<And>l. regex_search srch rx l" "\<And>i. \<not> stop i"
  shows "map m_line_no (scan_lines srch rx stop p arc mem i ls) = [i..<i + length ls]"
proof (induction ls arbitrary: i)
  case Nil
  then show ?case by simp
next
  case (Cons l ls)
  have "[i..<i + length (l # ls)] = i # [Suc i..<Suc i + length ls]"
    by (subst upt_rec) simp
  then show ?case using assms Cons.IH[of "Suc i"] by simp
qed

text \<open>
  C10. With an empty (or absent) pattern text and neither \<open>regex\<close> nor \<open>whole_word\<close>,
  the engine is constructed and its pattern matches every line; when the stop event is
  never found set, every line of a candidate whose lines are scanned gives a match:
  the line numbers of the matches are \<open>1, ..., n\<close> for its \<open>n\<close> lines.
\<close>

theorem empty_pattern_matches_every_line:
  assumes "opt_text os = None \<or> opt_text os = Some []"
      and "\<not> opt_regex os" "\<not> opt_whole_word os"
  shows "\<exists>eng. SearchEngine_init lib rt os inc exc = Inr eng \<and>
           (\<forall>line. regex_search (re_search lib) (compiled eng) line) \<and>
           (\<forall>fs p arc mem ls.
              content_lines fs p arc mem = Some ls \<longrightarrow>
              map m_line_no (search_content lib fs eng never p arc mem) = [1..<Suc (length ls)])"
proof -
  let ?eng = "\<lparr>root = rt, opts = os, include_globs = inc, exclude_globs = exc,
               compiled = Literal (\<not> opt_case os) []\<rparr> :: 'a engine"
  have init: "SearchEngine_init lib rt os inc exc = Inr ?eng"
    using assms by (auto simp: SearchEngine_init_def Let_def)
  have every: "regex_search (re_search lib) (compiled ?eng) line" for line
    by (simp add: literal_search_empty)
  have "map m_line_no (search_content lib fs ?eng never p arc mem) = [1..<Suc (length ls)]"
    if "content_lines fs p arc mem = Some ls" for fs p arc mem ls
    using that scan_lines_all[of "re_search lib" "compiled ?eng" never p arc mem 1 ls] every
    by (simp add: search_content_def never_def)
  with init every show ?thesis by blast
qed

theorem empty_pattern_matches_every_line_witness:
  "SearchEngine_init stub_lib ''/r'' (plain_options []) [] [] = Inr (literal_engine []) \<and>
   map m_line_no
     (search_content stub_lib (one_file ''/r/a.txt'' (text_file (''a'' @ [LF] @ ''b'')))
        (literal_engine []) never ''/r/a.txt'' False None) = [1, 2]"
proof -
  have init: "SearchEngine_init stub_lib ''/r'' (plain_options []) [] [] = Inr (literal_engine [])"
    by (simp add: SearchEngine_init_def plain_options_def literal_engine_def Let_def)
  have h: "opt_text (plain_options []) = None \<or> opt_text (plain_options []) = Some []"
    "\<not> opt_regex (plain_options [])" "\<not> opt_whole_word (plain_options [])"
    by (simp_all add: plain_options_def)
  have ls: "content_lines (one_file ''/r/a.txt'' (text_file (''a'' @ [LF] @ ''b''))) ''/r/a.txt''
              False None = Some [''a'' @ [LF], ''b'']"
    by (simp add: content_lines_def one_file_def text_file_def st_size_def is_binary_file_def
        MAX_FILE_SIZE_MB_def readlines_def char_class_defs)
  from empty_pattern_matches_every_line[OF h, of stub_lib "''/r''" "[]" "[]"] init ls
  show ?thesis by fastforce
qed

section \<open>Properties of the replace job\<close>

lemma replace_foo: "str_replace ''foo'' ''baz'' ''foo bar foo'' = ''baz bar baz''"
  by (simp add: startswith_def)

lemma readlines_foo: "readlines ''foo bar foo'' = [''foo bar foo'']"
  by (simp add: readlines_def char_class_defs)

lemma readlines_baz: "readlines ''baz bar baz'' = [''baz bar baz'']"
  by (simp add: readlines_def char_class_defs)

lemma strip_baz: "strip ''baz bar baz'' = ''baz bar baz''"
  by (simp add: strip_def is_space_def)

lemma search_baz: "literal_search False ''baz'' ''baz bar baz''"
  by (simp add: ch_eq_def)

lemma written_baz:
  "written_file ''baz bar baz'' =
     \<lparr>raw = ''baz bar baz'', decoded = ''baz bar baz'', readable = True,
      zip_members = None, tar_members = None\<rparr>"
  by (simp add: written_file_def utf8_encode_def)

lemma search_written_baz:
  assumes "fs' p = Some (written_file ''baz bar baz'')" "compiled eng = Literal False ''baz''"
  shows "search_content lib fs' eng never p False None =
           [\<lparr>m_path = p, m_line_no = 1, m_preview = ''baz bar baz'', m_is_archive = False,
             m_member = None\<rparr>]"
proof -
  have "content_lines fs' p False None = Some [''baz bar baz'']"
    using assms(1)
    by (simp add: content_lines_def written_baz st_size_def is_binary_file_def
        MAX_FILE_SIZE_MB_def readlines_baz NUL_def)
  then show ?thesis
    using assms(2) by (simp add: search_content_def never_def ch_eq_def strip_baz)
qed

lemma atomic_write_succeeds:
  assumes "flt = no_faults" "tmp \<noteq> p" "tmp \<noteq> p @ ''.bak''" "path_name p \<noteq> []"
      and "fs p = Some f" "readable f"
  shows "\<exists>fs'. atomic_write flt tmp fs p content bk = (fs', None) \<and>
               fs' p = Some (written_file content)"
  using assms
  by (auto simp: atomic_write_def backup_copy_def no_faults_def Let_def split: option.splits)

text \<open>
  C2, as amended. A readable file holds \<open>foo bar foo\<close>; nothing fails, and the temporary
  name is neither the target nor its backup. The job that replaces the literal \<open>foo\<close> by
  \<open>baz\<close> (case-sensitive, no regex, no whole word) reports the step and one changed
  file and leaves \<open>baz bar baz\<close>; the search for the literal \<open>baz\<close> in the result
  yields one match, for line 1: a line gives one match however often the pattern
  occurs in it.
\<close>

theorem replace_then_search_finds_one_line:
  assumes target: "fs p = Some f" "readable f" "decoded f = ''foo bar foo''"
      and quiet: "faults_for env p = no_faults"
      and temp: "temp_for env p \<noteq> p" "temp_for env p \<noteq> p @ ''.bak''" "path_name p \<noteq> []"
      and eng: "SearchEngine_init lib rt os inc exc = Inr eng"
               "opt_text os = Some ''baz''" "opt_case os" "\<not> opt_regex os" "\<not> opt_whole_word os"
  shows "case ReplacementWorker_run lib env fs [(item, p)]
                \<lparr>fo_text = ''foo'', fo_case = True, fo_regex = False, fo_whole = False\<rparr>
                ''baz'' backup of
           (fs', evs) \<Rightarrow>
             evs = [Step 1 (path_name p), JobDone 1] \<and>
             map_option decoded (fs' p) = Some ''baz bar baz'' \<and>
             search_content lib fs' eng never p False None =
               [\<lparr>m_path = p, m_line_no = 1, m_preview = ''baz bar baz'', m_is_archive = False,
                 m_member = None\<rparr>]"
proof -
  let ?fo = "\<lparr>fo_text = ''foo'', fo_case = True, fo_regex = False, fo_whole = False\<rparr>"
  have c: "compiled eng = Literal False ''baz''"
    using eng by (auto simp: SearchEngine_init_def Let_def)
  have old: "concat (read_file_lines fs p False None) = ''foo bar foo''"
    using target by (simp add: read_file_lines_def readlines_foo)
  obtain fs' where w: "atomic_write (faults_for env p) (temp_for env p) fs p ''baz bar baz'' backup
                         = (fs', None)" and fp: "fs' p = Some (written_file ''baz bar baz'')"
    using atomic_write_succeeds[where fs = fs and p = p and f = f, OF quiet temp target(1,2)]
    by blast
  have one: "replace_file lib env None ?fo ''baz'' backup fs p = (fs', Inr True)"
    using w by (simp add: replace_file_def old new_text_of_def replace_foo Let_def
        del: str_replace.simps)
  have run: "ReplacementWorker_run lib env fs [(item, p)] ?fo ''baz'' backup
               = (fs', [Step 1 (path_name p), JobDone 1])"
    by (simp add: ReplacementWorker_run_def worker_pattern_def one file_event_def)
  show ?thesis
    using search_written_baz[where fs' = fs' and p = p, OF fp c] fp
    by (simp add: run written_baz)
qed

theorem replace_then_search_finds_one_line_witness:
  "snd foo_job = [Step 1 ''a.txt'', JobDone 1] \<and>
   map_option decoded (fst foo_job ''/r/a.txt'') = Some ''baz bar baz'' \<and>
   search_content stub_lib (fst foo_job) (exact_engine ''baz'') never ''/r/a.txt'' False None =
     [\<lparr>m_path = ''/r/a.txt'', m_line_no = 1, m_preview = ''baz bar baz'', m_is_archive = False,
       m_member = None\<rparr>]"
proof -
  let ?fs = "one_file ''/r/a.txt'' (text_file ''foo bar foo'')"
  let ?os = "(plain_options ''baz'')\<lparr>opt_case := True\<rparr>"
  have h: "?fs ''/r/a.txt'' = Some (text_file ''foo bar foo'')"
    "readable (text_file ''foo bar foo'')" "decoded (text_file ''foo bar foo'') = ''foo bar foo''"
    "faults_for quiet_env ''/r/a.txt'' = no_faults"
    "temp_for quiet_env ''/r/a.txt'' \<noteq> ''/r/a.txt''"
    "temp_for quiet_env ''/r/a.txt'' \<noteq> ''/r/a.txt'' @ ''.bak''"
    "path_name ''/r/a.txt'' \<noteq> []"
    "SearchEngine_init stub_lib ''/r'' ?os [] [] = Inr (exact_engine ''baz'')"
    "opt_text ?os = Some ''baz''" "opt_case ?os" "\<not> opt_regex ?os" "\<not> opt_whole_word ?os"
    by (simp_all add: one_file_def text_file_def quiet_env_def path_name_def
        SearchEngine_init_def exact_engine_def plain_options_def Let_def)
  from replace_then_search_finds_one_line[where fs = "?fs" and p = "''/r/a.txt''"
      and f = "text_file ''foo bar foo''" and env = quiet_env and lib = stub_lib
      and item = "''I001''" and backup = False, OF h]
  show ?thesis
    by (simp add: foo_job_def foo_options_def path_name_def split: prod.splits)
qed

theorem replace_then_search_two_matches_counterexample:
  "\<not> (map_option decoded (fst foo_job ''/r/a.txt'') = Some ''baz bar baz'' \<and>
      length (search_content stub_lib (fst foo_job) (exact_engine ''baz'') never ''/r/a.txt''
                False None) = 2)"
proof -
  have "fst foo_job ''/r/a.txt'' = Some (written_file ''baz bar baz'')"
    by (simp add: foo_job_def ReplacementWorker_run_def worker_pattern_def foo_options_def
        replace_file_def read_file_lines_def one_file_def text_file_def readlines_foo
        new_text_of_def replace_foo quiet_env_def atomic_write_def no_faults_def
        backup_copy_def Let_def del: str_replace.simps)
  from search_written_baz[where fs' = "fst foo_job" and p = "''/r/a.txt''"
      and eng = "exact_engine ''baz''" and lib = stub_lib, OF this]
  show ?thesis by (simp add: exact_engine_def)
qed

lemma replace_files_step:
  "replace_files lib env rx fo repl bk i (item # rest) st =
     replace_files lib env rx fo repl bk (Suc i) rest
       (replace_files lib env rx fo repl bk i [item] st)"
  by (cases st) (simp split: prod.splits)

lemma replace_files_append:
  "replace_files lib env rx fo repl bk i (xs @ ys) st =
     replace_files lib env rx fo repl bk (i + length xs) ys
       (replace_files lib env rx fo repl bk i xs st)"
proof (induction xs arbitrary: i st)
  case Nil
  then show ?case by simp
next
  case (Cons x xs)
  have "replace_files lib env rx fo repl bk i ((x # xs) @ ys) st =
          replace_files lib env rx fo repl bk (Suc i) (xs @ ys)
            (replace_files lib env rx fo repl bk i [x] st)"
    using replace_files_step[of lib env rx fo repl bk i x "xs @ ys" st] by simp
  also have "\<dots> = replace_files lib env rx fo repl bk (Suc i + length xs) ys
            (replace_files lib env rx fo repl bk (Suc i) xs
               (replace_files lib env rx fo repl bk i [x] st))"
    by (rule Cons.IH)
  also have "replace_files lib env rx fo repl bk (Suc i) xs
               (replace_files lib env rx fo repl bk i [x] st) =
             replace_files lib env rx fo repl bk i (x # xs) st"
    using replace_files_step[of lib env rx fo repl bk i x xs st] by simp
  finally show ?case by simp
qed

lemma replace_files_one:
  "replace_files lib env rx fo repl bk i [item] (fs, c, q) =
     (fst (replace_file lib env rx fo repl bk fs (snd item)),
      (case snd (replace_file lib env rx fo repl bk fs (snd item)) of
         Inr True \<Rightarrow> c + 1 | _ \<Rightarrow> c),
      q @ [file_event i (snd item) (snd (replace_file lib env rx fo repl bk fs (snd item)))])"
  by (simp split: prod.splits)

lemma replace_files_queue:
  "\<exists>evs. snd (snd (replace_files lib env rx fo repl bk i xs st)) = snd (snd st) @ evs \<and>
         length evs = length xs"
proof (induction xs arbitrary: i st)
  case Nil
  then show ?case by simp
next
  case (Cons x xs)
  obtain fs c q where st: "st = (fs, c, q)" by (cases st) auto
  let ?st1 = "replace_files lib env rx fo repl bk i [x] st"
  have q1: "snd (snd ?st1) = q @ [file_event i (snd x)
               (snd (replace_file lib env rx fo repl bk fs (snd x)))]"
    unfolding st replace_files_one by simp
  from Cons.IH[of "Suc i" ?st1] obtain evs where
    "snd (snd (replace_files lib env rx fo repl bk (Suc i) xs ?st1)) = snd (snd ?st1) @ evs"
    "length evs = length xs" by blast
  then show ?case
    using q1 replace_files_step[of lib env rx fo repl bk i x xs st]
    by (simp add: st)
qed

lemma replace_files_nth:
  assumes "k < length files"
  shows "snd (snd (replace_files lib env rx fo repl bk 0 files (fs, 0, []))) ! k =
           file_event k (snd (files ! k))
             (snd (replace_file lib env rx fo repl bk
                     (fst (replace_files lib env rx fo repl bk 0 (take k files) (fs, 0, [])))
                     (snd (files ! k))))"
proof -
  let ?R = "replace_files lib env rx fo repl bk"
  let ?stk = "?R 0 (take k files) (fs, 0, [])"
  obtain fsk ck qk where stk: "?stk = (fsk, ck, qk)" by (cases ?stk) auto
  have lk: "length qk = k"
    using replace_files_queue[of lib env rx fo repl bk 0 "take k files" "(fs, 0, [])"] assms stk
    by auto
  have split: "files = take k files @ (files ! k) # drop (Suc k) files"
    using assms by (simp add: id_take_nth_drop)
  have "?R 0 files (fs, 0, []) = ?R (0 + length (take k files)) ((files ! k) # drop (Suc k) files) ?stk"
    using replace_files_append[of lib env rx fo repl bk 0 "take k files"
        "(files ! k) # drop (Suc k) files" "(fs, 0, [])"] split by simp
  also have "\<dots> = ?R (Suc k) (drop (Suc k) files) (?R k [files ! k] ?stk)"
    using assms replace_files_step[of lib env rx fo repl bk k "files ! k" "drop (Suc k) files" ?stk]
    by (simp add: min_def)
  finally have whole: "?R 0 files (fs, 0, []) = ?R (Suc k) (drop (Suc k) files) (?R k [files ! k] ?stk)" .
  let ?ev = "file_event k (snd (files ! k)) (snd (replace_file lib env rx fo repl bk fsk (snd (files ! k))))"
  have q1: "snd (snd (?R k [files ! k] ?stk)) = qk @ [?ev]"
    unfolding stk replace_files_one by simp
  obtain evs where "snd (snd (?R 0 files (fs, 0, []))) = (qk @ [?ev]) @ evs"
    using replace_files_queue[of lib env rx fo repl bk "Suc k" "drop (Suc k) files"
        "?R k [files ! k] ?stk"] q1 whole by auto
  then have "snd (snd (?R 0 files (fs, 0, []))) ! k = ?ev"
    using lk by (simp add: nth_append)
  then show ?thesis by (simp add: stk)
qed

text \<open>
  C5, as amended. When the pattern of the job compiles, every file of the job puts
  exactly one event, in the order of the job, and the done event follows them: the
  \<open>k\<close>-th event is the error event with the file's name and the exception when the
  processing of the \<open>k\<close>-th file (in the file system the files before it left) raises,
  which the substitution and \<open>atomic_write\<close> can do, and its step event otherwise; an
  exception never ends the loop. A file that cannot be read raises nothing:
  \<open>read_file_lines\<close> catches the failure and gives no lines.
\<close>

theorem worker_reports_each_file:
  assumes "worker_pattern lib fo = Inr rx"
  shows "(case ReplacementWorker_run lib env fs files fo repl backup of
            (fs', evs) \<Rightarrow>
              length evs = Suc (length files) \<and>
              (\<exists>n. evs ! length files = JobDone n) \<and>
              (\<forall>k<length files.
                 evs ! k =
                   (case snd (replace_file lib env rx fo repl backup
                                (fst (replace_files lib env rx fo repl backup 0 (take k files)
                                        (fs, 0, [])))
                                (snd (files ! k))) of
                      Inl e \<Rightarrow> JobError (path_name (snd (files ! k))) e
                    | Inr changed \<Rightarrow> Step (k + 1) (path_name (snd (files ! k)))))) \<and>
         ((case fs0 p of None \<Rightarrow> True | Some f \<Rightarrow> \<not> readable f) \<longrightarrow>
            read_file_lines fs0 p False None = [])"
proof -
  let ?R = "replace_files lib env rx fo repl backup"
  obtain fs' c q where fin: "?R 0 files (fs, 0, []) = (fs', c, q)"
    by (cases "?R 0 files (fs, 0, [])") auto
  have len: "length q = length files"
    using replace_files_queue[of lib env rx fo repl backup 0 files "(fs, 0, [])"] fin by auto
  have run: "ReplacementWorker_run lib env fs files fo repl backup = (fs', q @ [JobDone c])"
    using assms fin by (simp add: ReplacementWorker_run_def)
  have each: "(q @ [JobDone c]) ! k =
       (case snd (replace_file lib env rx fo repl backup
                    (fst (?R 0 (take k files) (fs, 0, []))) (snd (files ! k))) of
          Inl e \<Rightarrow> JobError (path_name (snd (files ! k))) e
        | Inr changed \<Rightarrow> Step (k + 1) (path_name (snd (files ! k))))"
    if "k < length files" for k
  proof -
    have "(q @ [JobDone c]) ! k = q ! k" using that len by (simp add: nth_append)
    also have "q ! k = snd (snd (?R 0 files (fs, 0, []))) ! k" by (simp add: fin)
    finally show ?thesis
      using replace_files_nth[OF that, of lib env rx fo repl backup fs]
      by (simp add: file_event_def)
  qed
  have last: "\<exists>n. (q @ [JobDone c]) ! length files = JobDone n"
    using len by (simp add: nth_append)
  have silent: "(case fs0 p of None \<Rightarrow> True | Some f \<Rightarrow> \<not> readable f) \<longrightarrow>
            read_file_lines fs0 p False None = []"
    by (auto simp: read_file_lines_def split: option.splits)
  show ?thesis
    using each last len silent by (simp add: run)
qed

lemma two_file_job_events:
  "snd two_file_job = [JobError ''a.txt'' (OSError ''Read-only file system''), Step 2 ''b.txt'',
                       JobDone 1]"
  by (simp add: two_file_job_def ReplacementWorker_run_def worker_pattern_def foo_options_def
      replace_file_def read_file_lines_def text_file_def readlines_def char_class_defs
      new_text_of_def startswith_def failing_env_def atomic_write_def no_faults_def fails_at_def
      backup_copy_def Let_def file_event_def path_name_def)

theorem worker_reports_each_file_witness:
  "snd two_file_job = [JobError ''a.txt'' (OSError ''Read-only file system''), Step 2 ''b.txt'',
                       JobDone 1] \<and>
   length (snd two_file_job) = Suc (length [(''I001'', ''/r/a.txt''), (''I002'', ''/r/b.txt'')]) \<and>
   read_file_lines (\<lambda>q. None) ''/r/gone.txt'' False None = []"
proof -
  have h: "worker_pattern stub_lib foo_options = Inr None"
    by (simp add: worker_pattern_def foo_options_def)
  have g: "case (\<lambda>q. None :: regular_file option) ''/r/gone.txt'' of
             None \<Rightarrow> True | Some f \<Rightarrow> \<not> readable f"
    by simp
  from worker_reports_each_file[OF h, where env = failing_env
      and fs = "\<lambda>q. if q = ''/r/a.txt'' \<or> q = ''/r/b.txt'' then Some (text_file ''foo'') else None"
      and files = "[(''I001'', ''/r/a.txt''), (''I002'', ''/r/b.txt'')]"
      and repl = "''baz''" and backup = False
      and ?fs0.0 = "\<lambda>q. None" and p = "''/r/gone.txt''"] g two_file_job_events
  show ?thesis
    by (simp add: two_file_job_def split: prod.splits)
qed

theorem read_failure_is_not_reported_counterexample:
  "\<not> readable (unreadable (text_file ''foo bar foo'')) \<and>
   snd locked_job = [Step 1 ''a.txt'', JobDone 0] \<and>
   \<not> (\<exists>e. JobError ''a.txt'' e \<in> set (snd locked_job))"
proof -
  have "snd locked_job = [Step 1 ''a.txt'', JobDone 0]"
    by (simp add: locked_job_def ReplacementWorker_run_def worker_pattern_def foo_options_def
        replace_file_def read_file_lines_def one_file_def unreadable_def text_file_def
        new_text_of_def file_event_def path_name_def)
  then show ?thesis by (simp add: unreadable_def text_file_def)
qed

section \<open>Properties of a run\<close>

lemma two_hits_scan:
  "scan_dir (Suc 0) stub_lib two_hits_fs two_files_dir never ceiling_engine ''/r'' ([], False)
     = Some ([(''/r/a.txt'', False, None), (''/r/b.txt'', False, None)], False)"
  by (simp add: two_files_dir_def never_def prune_dirs_def file_candidates_def ceiling_engine_def
      literal_engine_def plain_options_def startswith_def matches_globs_def path_join_def
      endswith_def)

lemma two_hits_first:
  "task_result stub_lib two_hits_fs calm ceiling_engine (''/r/a.txt'', False, None)
     = Inr [\<lparr>m_path = ''/r/a.txt'', m_line_no = 1, m_preview = ''foo'', m_is_archive = False,
              m_member = None\<rparr>,
            \<lparr>m_path = ''/r/a.txt'', m_line_no = 2, m_preview = ''foo'', m_is_archive = False,
              m_member = None\<rparr>]"
  by (simp add: task_result_def search_content_def content_lines_def two_hits_fs_def
      text_file_def st_size_def MAX_FILE_SIZE_MB_def is_binary_file_def readlines_def
      char_class_defs calm_def never_def ceiling_engine_def literal_engine_def strip_def)

lemma first_task_is_emitted:
  assumes scan: "scan_dir fuel lib fs ds (stop_at_dir sch) eng (root eng) ([], False)
                   = Some ([c1, c2], b)"
      and mx: "opt_max_matches (opts eng) = Some 1"
      and order: "completion sch [c1, c2] = [ca, cb]"
      and calm: "\<forall>k. \<not> stop_at_task sch k"
      and first: "task_result lib fs sch eng ca = Inr ms" "ms \<noteq> []"
  shows "\<exists>st. run fuel lib fs ds sch eng = Some st \<and>
              warnings_of (out_q st) = [1] \<and> matches_of (out_q st) = ms \<and>
              total_candidates (stats st) = 2 \<and> scanned_files (stats st) = 1 \<and> stop_set st"
proof -
  let ?s0 = "\<lparr>scanned_files = 0, total_candidates = Suc (Suc 0), matches_found = 0\<rparr>"
  let ?st0 = "\<lparr>stats = ?s0, out_q = [EvProgress ?s0], stop_set = False\<rparr>"
  let ?st1 = "consume (Inr ms) ?st0"
  let ?r2 = "task_result lib fs sch eng cb"
  have found1: "matches_found (stats ?st1) = length ms"
    by (simp add: consume_found)
  have "execute 1 (stop_at_task sch) 0 [Inr ms, ?r2] ?st0
          = execute 1 (stop_at_task sch) (Suc 0) [?r2] ?st1"
    using calm by (simp add: execute_Cons del: execute.simps)
  also have "\<dots> = ?st1\<lparr>out_q := out_q ?st1 @ [EvWarn 1], stop_set := True\<rparr>"
    using calm first(2) found1
    by (cases ms) (simp_all add: execute_Cons del: execute.simps)
  finally have ex: "execute 1 (stop_at_task sch) 0 [Inr ms, ?r2] ?st0
          = ?st1\<lparr>out_q := out_q ?st1 @ [EvWarn 1], stop_set := True\<rparr>" .
  let ?fin = "?st1\<lparr>out_q := out_q ?st1 @ [EvWarn 1], stop_set := True\<rparr>"
  have run: "run fuel lib fs ds sch eng = Some (?fin\<lparr>out_q := out_q ?fin @ [EvDone (stats ?fin)]\<rparr>)"
    using scan mx order first(1)
    by (simp add: run_def max_matches_of_def Let_def ex del: execute.simps)
  have w: "warnings_of (out_q ?st1) = []" and m: "matches_of (out_q ?st1) = ms"
    by (simp_all add: consume_warnings consume_matches)
  have t: "total_candidates (stats ?st1) = 2" and s: "scanned_files (stats ?st1) = 1"
    by (simp_all add: consume_def Let_def)
  show ?thesis
    unfolding run using w m t s
    by (simp add: warnings_of_append matches_of_append)
qed

text \<open>
  C4, as amended. The scan finds two candidates and \<open>max_matches\<close> is 1; the stop
  event is not set from outside; the task that completes first, whichever it is, has
  found at least one match. Then the run puts exactly one warn event, and its match
  events are the matches of that first task, all of them; the result of the other task
  is not read. Both tasks were submitted before the loop (\<open>total_candidates = 2\<close>),
  one completion was handled (\<open>scanned_files = 1\<close>), and the run has set the stop
  event.
\<close>

theorem ceiling_one_emits_first_task:
  assumes scan: "scan_dir fuel lib fs ds (stop_at_dir sch) eng (root eng) ([], False)
                   = Some ([c1, c2], b)"
      and mx: "opt_max_matches (opts eng) = Some 1"
      and order: "completion sch [c1, c2] = [ca, cb]"
      and calm: "\<forall>k. \<not> stop_at_task sch k"
      and first: "task_result lib fs sch eng ca = Inr ms" "ms \<noteq> []"
  shows "\<exists>st. run fuel lib fs ds sch eng = Some st \<and>
              warnings_of (out_q st) = [1] \<and> matches_of (out_q st) = ms \<and>
              total_candidates (stats st) = 2 \<and> scanned_files (stats st) = 1 \<and> stop_set st"
  using assms by (rule first_task_is_emitted)

theorem ceiling_one_emits_first_task_witness:
  "\<exists>st. two_hits_run = Some st \<and> warnings_of (out_q st) = [1] \<and>
         length (matches_of (out_q st)) = 2 \<and> scanned_files (stats st) = 1"
proof -
  have h: "scan_dir (Suc 0) stub_lib two_hits_fs two_files_dir (stop_at_dir calm) ceiling_engine
             (root ceiling_engine) ([], False)
             = Some ([(''/r/a.txt'', False, None), (''/r/b.txt'', False, None)], False)"
    "opt_max_matches (opts ceiling_engine) = Some 1"
    "completion calm [(''/r/a.txt'', False, None), (''/r/b.txt'', False, None)]
       = [(''/r/a.txt'', False, None), (''/r/b.txt'', False, None)]"
    "\<forall>k. \<not> stop_at_task calm k"
    using two_hits_scan
    by (simp_all add: calm_def never_def ceiling_engine_def literal_engine_def)
  from ceiling_one_emits_first_task[OF h two_hits_first]
  show ?thesis by (auto simp: two_hits_run_def)
qed

theorem ceiling_one_exactly_one_match_counterexample:
  "\<not> (\<exists>st. two_hits_run = Some st \<and> length (warnings_of (out_q st)) = 1 \<and>
            length (matches_of (out_q st)) = 1)"
proof -
  have h: "scan_dir (Suc 0) stub_lib two_hits_fs two_files_dir (stop_at_dir calm) ceiling_engine
             (root ceiling_engine) ([], False)
             = Some ([(''/r/a.txt'', False, None), (''/r/b.txt'', False, None)], False)"
    "opt_max_matches (opts ceiling_engine) = Some 1"
    "completion calm [(''/r/a.txt'', False, None), (''/r/b.txt'', False, None)]
       = [(''/r/a.txt'', False, None), (''/r/b.txt'', False, None)]"
    "\<forall>k. \<not> stop_at_task calm k"
    using two_hits_scan
    by (simp_all add: calm_def never_def ceiling_engine_def literal_engine_def)
  from first_task_is_emitted[OF h two_hits_first]
  show ?thesis by (auto simp: two_hits_run_def)
qed

lemma path_name_join: "CHR ''/'' \<notin> set n \<Longrightarrow> path_name (path_join d n) = n"
proof -
  assume n: "CHR ''/'' \<notin> set n"
  have tw: "takeWhile (\<lambda>c. c \<noteq> CHR ''/'') (rev n @ CHR ''/'' # xs) = rev n" for xs
    using n by (auto simp: takeWhile_tail takeWhile_eq_all_conv)
  show ?thesis
  proof (cases "d \<noteq> [] \<and> last d = CHR ''/''")
    case True
    then obtain ys where d: "d = ys @ [CHR ''/'']"
      by (metis append_butlast_last_id)
    have "path_join d n = d @ n" using True by (simp add: path_join_def)
    then show ?thesis using tw[of "rev ys"] by (simp add: path_name_def d)
  next
    case False
    then show ?thesis using tw by (auto simp: path_name_def path_join_def)
  qed
qed

lemma path_suffix_zip:
  assumes "stem \<noteq> []" "CHR ''/'' \<notin> set stem"
  shows "path_suffix (path_join d (stem @ ''.zip'')) = ''.zip''"
proof -
  have "CHR ''/'' \<notin> set (stem @ ''.zip'')" using assms(2) by simp
  then have "path_name (path_join d (stem @ ''.zip'')) = stem @ ''.zip''"
    by (rule path_name_join)
  then show ?thesis using assms(1) by (simp add: path_suffix_def Let_def)
qed

lemma endswith_zip: "endswith (stem @ ''.zip'') ''.zip''"
  by (simp add: endswith_def)

lemma scan_lines_filter:
  assumes "\<And>i. \<not> stop i"
  shows "length (scan_lines srch rx stop p arc mem i ls) = length (filter (regex_search srch rx) ls) \<and>
         (\<forall>m \<in> set (scan_lines srch rx stop p arc mem i ls).
            m_path m = p \<and> m_is_archive m = arc \<and> m_member m = mem)"
  using assms by (induction ls arbitrary: i) auto

lemma regex_search_literal: "regex_search srch (Literal ic p) = literal_search ic p"
  by (rule ext) simp

lemma one_element: "length xs = Suc 0 \<Longrightarrow> \<exists>x. xs = [x]"
  by (cases xs) auto

lemma two_orders:
  assumes "length xs = 2" "set xs = {a, b}" "a \<noteq> b"
  shows "xs = [a, b] \<or> xs = [b, a]"
proof -
  obtain x y where xy: "xs = [x, y]"
    using assms(1) by (cases xs; cases "tl xs") auto
  with assms(2,3) show ?thesis by (auto simp: doubleton_eq_iff)
qed

lemma execute_1:
  assumes "\<not> stop 0" "matches_found (stats st) = 0" "1 \<le> mx"
  shows "matches_of (out_q (execute mx stop 0 [Inr []] st)) = matches_of (out_q st)"
  using assms by (simp add: execute_Cons consume_matches del: execute.simps(2))

lemma execute_2a:
  assumes "\<not> stop 0" "\<not> stop (Suc 0)" "matches_found (stats st) = 0" "1 \<le> mx"
  shows "matches_of (out_q (execute mx stop 0 [Inr [], Inr ms] st)) = matches_of (out_q st) @ ms"
  using assms by (simp add: execute_Cons consume_matches consume_found del: execute.simps(2))

lemma execute_2b:
  assumes "\<not> stop 0" "\<not> stop (Suc 0)" "matches_found (stats st) = 0" "1 \<le> mx"
  shows "matches_of (out_q (execute mx stop 0 [Inr ms, Inr []] st)) = matches_of (out_q st) @ ms"
  using assms
  by (simp add: execute_Cons consume_matches consume_found matches_of_append
      del: execute.simps(2))

text \<open>
  C9. The root directory lists one file, a \<open>.zip\<close> archive whose name the filters
  admit and which is not hidden from the search; \<open>zipfile\<close> finds in it the one member
  \<open>hello.txt\<close>, admitted too, of which exactly one line holds \<open>needle\<close>; the
  archive file itself is judged binary, as the NUL bytes of a zip header make it. The
  ceiling is at least 1, nothing is cancelled, and the two tasks may complete in either
  order. With \<open>search_archives\<close> the run puts exactly one match event: a match of the
  archive's path with \<open>is_archive\<close> set and member \<open>hello.txt\<close>. Without it the run
  puts no match event.
\<close>

theorem zip_member_is_searched:
  assumes init: "SearchEngine_init lib rt os inc exc = Inr eng"
      and pat: "opt_text os = Some ''needle''" "\<not> opt_regex os" "\<not> opt_whole_word os"
      and ceiling: "1 \<le> max_matches_of os"
      and listing: "ds rt = Some ([], [stem @ ''.zip''])"
      and name: "stem \<noteq> []" "CHR ''/'' \<notin> set stem"
      and visible: "opt_include_hidden os \<or> \<not> startswith (stem @ ''.zip'') ''.''"
      and admitted: "matches_globs lib eng (stem @ ''.zip'')" "matches_globs lib eng ''hello.txt''"
      and archive: "fs (path_join rt (stem @ ''.zip'')) = Some f" "readable f"
                   "zip_members f = Some [(''hello.txt'', Some content)]"
                   "NUL \<in> set (take 1024 (raw f))"
      and one_line: "length (filter (literal_search (\<not> opt_case os) ''needle'')
                               (splitlines False content)) = 1"
      and calm: "\<forall>d. \<not> stop_at_dir sch d" "\<forall>c i. \<not> stop_at_line sch c i"
                "\<forall>k. \<not> stop_at_task sch k"
      and order: "\<forall>cs. length (completion sch cs) = length cs \<and>
                       set (completion sch cs) = set cs"
  shows "\<exists>st. run (Suc n) lib fs ds sch eng = Some st \<and>
           (if opt_search_archives os
            then \<exists>m. matches_of (out_q st) = [m] \<and> m_is_archive m \<and>
                     m_member m = Some ''hello.txt'' \<and>
                     m_path m = path_join rt (stem @ ''.zip'')
            else matches_of (out_q st) = [])"
proof -
  let ?name = "stem @ ''.zip''"
  let ?p = "path_join rt ?name"
  let ?c0 = "(?p, False, None) :: candidate"
  let ?c1 = "(?p, True, Some ''hello.txt'') :: candidate"
  have eng: "root eng = rt" "opts eng = os" "compiled eng = Literal (\<not> opt_case os) ''needle''"
    using init pat by (auto simp: SearchEngine_init_def Let_def)
  have members: "archive_members lib fs eng ?p = [?c1]"
    using archive admitted(2) by (simp add: archive_members_def open_zip_def endswith_def)
  have cands: "file_candidates lib fs eng rt ?name =
                 ?c0 # (if opt_search_archives os then [?c1] else [])"
    using visible admitted(1) members
    by (auto simp: file_candidates_def eng endswith_zip Let_def)
  let ?cands = "?c0 # (if opt_search_archives os then [?c1] else [])"
  have scan: "scan_dir (Suc n) lib fs ds (stop_at_dir sch) eng (root eng) ([], False)
                = Some (?cands, False)"
    using listing calm(1) cands by (simp add: eng prune_dirs_def)
  have r0: "task_result lib fs sch eng ?c0 = Inr []"
    using archive(1,4) by (simp add: task_result_def search_content_def content_lines_def
        is_binary_file_def archive(2))
  have lines: "content_lines fs ?p True (Some ''hello.txt'') = Some (splitlines False content)"
    using archive(1,2,3) path_suffix_zip[OF name]
    by (simp add: content_lines_def open_zip_def find_member_def)
  let ?ms = "search_content lib fs eng (stop_at_line sch ?c1) ?p True (Some ''hello.txt'')"
  have r1: "task_result lib fs sch eng ?c1 = Inr ?ms"
    by (simp add: task_result_def)
  have quiet: "\<not> stop_at_line sch ?c1 i" for i using calm(2) by simp
  have "length ?ms = 1 \<and>
        (\<forall>m \<in> set ?ms. m_path m = ?p \<and> m_is_archive m = True \<and> m_member m = Some ''hello.txt'')"
    unfolding search_content_def lines option.case
    using scan_lines_filter[of "stop_at_line sch ?c1" "re_search lib" "compiled eng" ?p True
        "Some ''hello.txt''" 1 "splitlines False content", OF quiet] one_line
    by (simp add: eng regex_search_literal)
  then obtain m where m: "?ms = [m]" "m_path m = ?p" "m_is_archive m" "m_member m = Some ''hello.txt''"
    by (cases ?ms) auto
  let ?mx = "max_matches_of (opts eng)"
  let ?zero = "\<lparr>scanned_files = 0, total_candidates = length ?cands, matches_found = 0\<rparr>"
  let ?start = "\<lparr>stats = ?zero, out_q = [EvProgress ?zero], stop_set = False\<rparr>"
  let ?results = "map (task_result lib fs sch eng) (completion sch ?cands)"
  let ?st = "execute ?mx (stop_at_task sch) 0 ?results ?start"
  have run: "run (Suc n) lib fs ds sch eng = Some (?st\<lparr>out_q := out_q ?st @ [EvDone (stats ?st)]\<rparr>)"
    unfolding run_def scan by (simp add: Let_def del: execute.simps scan_dir.simps)
  have mx: "1 \<le> ?mx" using ceiling by (simp add: eng)
  have init_state: "matches_found (stats ?start) = 0" "matches_of (out_q ?start) = []" by simp_all
  have ns: "\<not> stop_at_task sch 0" "\<not> stop_at_task sch (Suc 0)" using calm(3) by simp_all
  have found: "matches_of (out_q ?st) = (if opt_search_archives os then [m] else [])"
  proof (cases "opt_search_archives os")
    case False
    then have "length (completion sch [?c0]) = Suc 0" "set (completion sch [?c0]) = {?c0}"
      using order by simp_all
    then have "completion sch [?c0] = [?c0]"
      using one_element[of "completion sch [?c0]"] by auto
    then have "?results = [Inr []]" using False r0 by simp
    then show ?thesis
      using execute_1[where stop = "stop_at_task sch" and st = ?start and mx = ?mx,
          OF ns(1) init_state(1) mx] False init_state(2)
      by (simp del: execute.simps)
  next
    case True
    have "length (completion sch [?c0, ?c1]) = 2" "set (completion sch [?c0, ?c1]) = {?c0, ?c1}"
      using order by simp_all
    then have "completion sch [?c0, ?c1] = [?c0, ?c1] \<or> completion sch [?c0, ?c1] = [?c1, ?c0]"
      by (intro two_orders) simp_all
    then have "?results = [Inr [], Inr [m]] \<or> ?results = [Inr [m], Inr []]"
      using True r0 r1 m(1) by auto
    then show ?thesis
      using execute_2a[where stop = "stop_at_task sch" and st = ?start and mx = ?mx
            and ms = "[m]", OF ns init_state(1) mx]
        execute_2b[where stop = "stop_at_task sch" and st = ?start and mx = ?mx
            and ms = "[m]", OF ns init_state(1) mx] True init_state(2)
      by (auto simp del: execute.simps)
  qed
  let ?final = "?st\<lparr>out_q := out_q ?st @ [EvDone (stats ?st)]\<rparr>"
  have done_event: "matches_of (out_q ?final) = matches_of (out_q ?st)"
    by (simp add: matches_of_append del: execute.simps)
  show ?thesis
  proof (intro exI conjI)
    show "run (Suc n) lib fs ds sch eng = Some ?final" by (fact run)
    show "if opt_search_archives os
          then \<exists>m. matches_of (out_q ?final) = [m] \<and> m_is_archive m \<and>
                   m_member m = Some ''hello.txt'' \<and>
                   m_path m = path_join rt (stem @ ''.zip'')
          else matches_of (out_q ?final) = []"
      unfolding done_event found using m(2,3,4) by auto
  qed
qed

lemma zip_member_hypotheses:
  "SearchEngine_init stub_lib ''/r'' (archive_options a) [] [] = Inr (archive_engine a)"
  "opt_text (archive_options a) = Some ''needle''"
  "\<not> opt_regex (archive_options a)" "\<not> opt_whole_word (archive_options a)"
  "1 \<le> max_matches_of (archive_options a)"
  "zip_dir ''/r'' = Some ([], [''a'' @ ''.zip''])"
  "''a'' \<noteq> []" "CHR ''/'' \<notin> set ''a''"
  "opt_include_hidden (archive_options a) \<or> \<not> startswith (''a'' @ ''.zip'') ''.''"
  "matches_globs stub_lib (archive_engine a) (''a'' @ ''.zip'')"
  "matches_globs stub_lib (archive_engine a) ''hello.txt''"
  "one_file ''/r/a.zip'' zip_file (path_join ''/r'' (''a'' @ ''.zip'')) = Some zip_file"
  "readable zip_file"
  "zip_members zip_file = Some [(''hello.txt'', Some (''say'' @ [LF] @ ''a needle here'' @ [LF]))]"
  "NUL \<in> set (take 1024 (raw zip_file))"
  "length (filter (literal_search (\<not> opt_case (archive_options a)) ''needle'')
             (splitlines False (''say'' @ [LF] @ ''a needle here'' @ [LF]))) = 1"
  "\<forall>d. \<not> stop_at_dir calm d" "\<forall>c i. \<not> stop_at_line calm c i" "\<forall>k. \<not> stop_at_task calm k"
  "\<forall>cs. length (completion calm cs) = length cs \<and> set (completion calm cs) = set cs"
  by (simp_all add: SearchEngine_init_def archive_options_def archive_engine_def
      literal_engine_def plain_options_def Let_def max_matches_of_def DEFAULT_MAX_MATCHES_def
      zip_dir_def startswith_def matches_globs_def one_file_def path_join_def zip_file_def
      splitlines_def char_class_defs calm_def never_def)

theorem zip_member_is_searched_witness:
  "(\<exists>st. run (Suc 0) stub_lib (one_file ''/r/a.zip'' zip_file) zip_dir calm (archive_engine True)
            = Some st \<and>
         (\<exists>m. matches_of (out_q st) = [m] \<and> m_is_archive m \<and>
              m_member m = Some ''hello.txt'' \<and> m_path m = ''/r/a.zip'')) \<and>
   (\<exists>st. run (Suc 0) stub_lib (one_file ''/r/a.zip'' zip_file) zip_dir calm (archive_engine False)
            = Some st \<and> matches_of (out_q st) = [])"
proof -
  note with_archives =
    zip_member_is_searched[where lib = stub_lib and rt = "''/r''" and os = "archive_options True"
      and inc = "[]" and exc = "[]" and eng = "archive_engine True" and ds = zip_dir
      and stem = "''a''" and fs = "one_file ''/r/a.zip'' zip_file" and f = zip_file
      and content = "''say'' @ [LF] @ ''a needle here'' @ [LF]" and sch = calm and n = 0,
      OF zip_member_hypotheses]
  note without_archives =
    zip_member_is_searched[where lib = stub_lib and rt = "''/r''" and os = "archive_options False"
      and inc = "[]" and exc = "[]" and eng = "archive_engine False" and ds = zip_dir
      and stem = "''a''" and fs = "one_file ''/r/a.zip'' zip_file" and f = zip_file
      and content = "''say'' @ [LF] @ ''a needle here'' @ [LF]" and sch = calm and n = 0,
      OF zip_member_hypotheses]
  from with_archives without_archives show ?thesis
    by (simp add: archive_options_def path_join_def)
qed

end
